theory Spec2Isabelle
  imports Main
begin

section \<open>Data of godepgraph (main.go)\<close>

text \<open>
  The fields of \<^verbatim>\<open>go/build.Package\<close> that the program reads. The descriptor is
  produced by \<^verbatim>\<open>buildContext.Import\<close>, which is outside the program.
\<close>

record package =
  ImportPath :: string
  Goroot :: bool
  CgoFiles :: "string list"
  Imports :: "string list"
  TestImports :: "string list"
  XTestImports :: "string list"

text \<open>The values of the command-line flags after \<^verbatim>\<open>flag.Parse()\<close> (lines 23-30).\<close>

record flags =
  ignoreStdlib :: bool
  delveGoroot :: bool
  ignorePrefixes :: string
  ignorePackages :: string
  onlyPrefix :: string
  tagList :: string
  horizontal :: bool
  includeTests :: bool

text \<open>
  The package-level variables fall into two groups. \<^verbatim>\<open>ignored\<close>,
  \<^verbatim>\<open>ignoredPrefixes\<close>, \<^verbatim>\<open>onlyPrefixes\<close> and \<^verbatim>\<open>buildTags\<close> are assigned only
  while \<^verbatim>\<open>main\<close> reads the flags (lines 47-60), before any package is processed.
  The map \<^verbatim>\<open>ignored\<close> only ever holds the value \<^verbatim>\<open>true\<close>, so it is the set of its
  keys.
\<close>

record settings =
  ignored :: "string set"
  ignoredPrefixes :: "string list"
  onlyPrefixes :: "string list"
  buildTags :: "string list"

text \<open>
  \<^verbatim>\<open>pkgs\<close>, \<^verbatim>\<open>ids\<close> and \<^verbatim>\<open>nextId\<close> change while the program runs. \<^verbatim>\<open>nextId\<close> is a
  Go \<^verbatim>\<open>int\<close>; it is incremented once per entry added to \<^verbatim>\<open>ids\<close>, and a map with
  \<open>2^31\<close> string keys does not fit the address space of a machine whose \<^verbatim>\<open>int\<close> has
  32 bits (nor \<open>2^63\<close> keys one of 64 bits), so the increment never wraps and the
  counter is an unbounded integer here.

  \<open>lookups\<close> is not a variable of the program: it records, in order, every path
  handed to \<^verbatim>\<open>buildContext.Import\<close>, so that statements about calls of the metadata
  provider can be made.
\<close>

record state =
  pkgs :: "string \<rightharpoonup> package"
  ids :: "string \<rightharpoonup> int"
  nextId :: int
  lookups :: "string list"

text \<open>
  What a call of \<^verbatim>\<open>processPackage\<close> does: return \<^verbatim>\<open>nil\<close>, return an error, or not
  return within the recursion depth that the model was given.
\<close>

datatype outcome = Ok | Failed string | Exhausted

text \<open>
  The lines written to standard output:
  \<^item> \<open>GraphOpen\<close> is \<^verbatim>\<open>digraph godep {\<close>;
  \<^item> \<open>RankdirLR\<close> is \<^verbatim>\<open>rankdir="LR"\<close>;
  \<^item> \<open>NodeStmt i l c\<close> is \<^verbatim>\<open>i [label="l" style="filled" color="c"];\<close>;
  \<^item> \<open>EdgeStmt i j\<close> is \<^verbatim>\<open>i -> j;\<close>;
  \<^item> \<open>GraphClose\<close> is \<^verbatim>\<open>}\<close>.
\<close>

datatype stmt =
  GraphOpen
| RankdirLR
| NodeStmt int string string
| EdgeStmt int int
| GraphClose

text \<open>
  What a run of the process leaves behind: standard output, the messages of
  \<^verbatim>\<open>log.Fatal\<close> on the error stream (without the timestamp that \<^verbatim>\<open>log\<close> puts
  before them) and the exit status.
\<close>

record run =
  stdout :: "stmt list"
  stderr :: "string list"
  status :: int

section \<open>The functions of main.go\<close>

subsection \<open>Library functions the program calls\<close>

text \<open>\<^verbatim>\<open>strings.HasPrefix(s, prefix)\<close>.\<close>

definition strings_HasPrefix :: "string \<Rightarrow> string \<Rightarrow> bool" where
  "strings_HasPrefix s p = (length p \<le> length s \<and> take (length p) s = p)"

text \<open>
  \<^verbatim>\<open>strings.Split(s, sep)\<close> for a separator of one byte (the program only splits at
  a comma): the fields between the separators, empty fields included.
\<close>

fun strings_Split :: "string \<Rightarrow> char \<Rightarrow> string list" where
  "strings_Split [] sep = [[]]"
| "strings_Split (c # cs) sep =
     (if c = sep then [] # strings_Split cs sep
      else (case strings_Split cs sep of
              [] \<Rightarrow> [[c]]
            | w # ws \<Rightarrow> (c # w) # ws))"

subsection \<open>Initial values and flag handling (lines 12-21, 37-38, 47-60)\<close>

definition init_settings :: settings where
  "init_settings =
     \<lparr>ignored = {''C''}, ignoredPrefixes = [], onlyPrefixes = [], buildTags = []\<rparr>"

definition init_state :: state where
  "init_state = \<lparr>pkgs = Map.empty, ids = Map.empty, nextId = 0, lookups = []\<rparr>"

definition configure :: "flags \<Rightarrow> settings" where
  "configure fl =
     (let s0 = init_settings;
          s1 = (if ignorePrefixes fl \<noteq> ''''
                then s0\<lparr>ignoredPrefixes := strings_Split (ignorePrefixes fl) CHR '',''\<rparr>
                else s0);
          s2 = (if onlyPrefix fl \<noteq> ''''
                then s1\<lparr>onlyPrefixes := strings_Split (onlyPrefix fl) CHR '',''\<rparr>
                else s1);
          s3 = (if ignorePackages fl \<noteq> ''''
                then s2\<lparr>ignored := fold insert (strings_Split (ignorePackages fl) CHR '','')
                                         (ignored s2)\<rparr>
                else s2);
          s4 = (if tagList fl \<noteq> ''''
                then s3\<lparr>buildTags := strings_Split (tagList fl) CHR '',''\<rparr>
                else s3)
      in s4)"

subsection \<open>hasPrefixes and isIgnored (lines 174-188)\<close>

fun hasPrefixes :: "string \<Rightarrow> string list \<Rightarrow> bool" where
  "hasPrefixes s [] = False"
| "hasPrefixes s (p # prefixes) =
     (if strings_HasPrefix s p then True else hasPrefixes s prefixes)"

definition isIgnored :: "flags \<Rightarrow> settings \<Rightarrow> package \<Rightarrow> bool" where
  "isIgnored fl cf pkg =
     (if length (onlyPrefixes cf) > 0 \<and> \<not> hasPrefixes (ImportPath pkg) (onlyPrefixes cf)
      then True
      else (ImportPath pkg \<in> ignored cf \<or> (Goroot pkg \<and> ignoreStdlib fl)
            \<or> hasPrefixes (ImportPath pkg) (ignoredPrefixes cf)))"

subsection \<open>getId (lines 164-172)\<close>

definition getId :: "string \<Rightarrow> state \<Rightarrow> int \<times> state" where
  "getId name st =
     (case ids st name of
        Some i \<Rightarrow> (i, st)
      | None \<Rightarrow> (nextId st, st\<lparr>nextId := nextId st + 1, ids := (ids st)(name \<mapsto> nextId st)\<rparr>))"

text \<open>A sequence of calls of \<^verbatim>\<open>getId\<close>, with the identifiers they return.\<close>

fun getIds :: "string list \<Rightarrow> state \<Rightarrow> int list \<times> state" where
  "getIds [] st = ([], st)"
| "getIds (name # names) st =
     (case getId name st of
        (i, st1) \<Rightarrow> (case getIds names st1 of (js, st2) \<Rightarrow> (i # js, st2)))"

subsection \<open>getImports (lines 142-162)\<close>

text \<open>
  The loop of \<^verbatim>\<open>getImports\<close>, with its two local variables: the set \<^verbatim>\<open>found\<close> and
  the slice \<^verbatim>\<open>imports\<close> that is appended to.
\<close>

fun getImports_loop :: "string \<Rightarrow> string list \<Rightarrow> string set \<Rightarrow> string list \<Rightarrow> string list" where
  "getImports_loop self [] found imports = imports"
| "getImports_loop self (imp # rest) found imports =
     (if imp = self then getImports_loop self rest found imports
      else if imp \<in> found then getImports_loop self rest found imports
      else getImports_loop self rest (insert imp found) (imports @ [imp]))"

definition allImports :: "flags \<Rightarrow> package \<Rightarrow> string list" where
  "allImports fl pkg =
     (if includeTests fl then (Imports pkg @ TestImports pkg) @ XTestImports pkg
      else Imports pkg)"

definition getImports :: "flags \<Rightarrow> package \<Rightarrow> string list" where
  "getImports fl pkg = getImports_loop (ImportPath pkg) (allImports fl pkg) {} []"

subsection \<open>processPackage (lines 111-140)\<close>

text \<open>
  The loop over the imports (lines 132-138); \<open>rec\<close> is the recursive call of
  \<^verbatim>\<open>processPackage\<close>. An import that is a key of \<^verbatim>\<open>pkgs\<close> is passed over; the first
  call that does not return \<^verbatim>\<open>nil\<close> ends the loop.
\<close>

fun rangeImports ::
  "(string \<Rightarrow> state \<Rightarrow> outcome \<times> state) \<Rightarrow> string list \<Rightarrow> state \<Rightarrow> outcome \<times> state" where
  "rangeImports rec [] st = (Ok, st)"
| "rangeImports rec (imp # rest) st =
     (if pkgs st imp = None
      then (case rec imp st of
              (Ok, st1) \<Rightarrow> rangeImports rec rest st1
            | (r, st1) \<Rightarrow> (r, st1))
      else rangeImports rec rest st)"

text \<open>
  \<^verbatim>\<open>processPackage\<close> calls itself without a bound that the code states, so the model
  takes the depth of recursion it may use as its first argument and answers
  \<open>Exhausted\<close> when that is used up. \<open>Import path srcDir\<close> stands for
  \<^verbatim>\<open>buildContext.Import(path, srcDir, 0)\<close>: \<open>Inl\<close> is its error, with the message.
\<close>

primrec processPackage ::
  "nat \<Rightarrow> flags \<Rightarrow> settings \<Rightarrow> (string \<Rightarrow> string \<Rightarrow> string + package) \<Rightarrow> string \<Rightarrow> string
     \<Rightarrow> state \<Rightarrow> outcome \<times> state" where
  "processPackage 0 fl cf Import root pkgName st = (Exhausted, st)"
| "processPackage (Suc n) fl cf Import root pkgName st =
     (if pkgName \<in> ignored cf then (Ok, st)
      else
        (let st1 = st\<lparr>lookups := lookups st @ [pkgName]\<rparr> in
         case Import pkgName root of
           Inl err \<Rightarrow> (Failed (''failed to import '' @ pkgName @ '': '' @ err), st1)
         | Inr pkg \<Rightarrow>
             if isIgnored fl cf pkg then (Ok, st1)
             else
               (let st2 = st1\<lparr>pkgs := (pkgs st1)(ImportPath pkg \<mapsto> pkg)\<rparr> in
                if Goroot pkg \<and> \<not> delveGoroot fl then (Ok, st2)
                else rangeImports (processPackage n fl cf Import root) (getImports fl pkg) st2)))"

subsection \<open>main (lines 36-109)\<close>

definition color :: "package \<Rightarrow> string" where
  "color pkg =
     (if Goroot pkg then ''palegreen''
      else if length (CgoFiles pkg) > 0 then ''darkgoldenrod1''
      else ''paleturquoise'')"

text \<open>The inner loop of the output (lines 98-106).\<close>

fun renderImports ::
  "flags \<Rightarrow> settings \<Rightarrow> int \<Rightarrow> string list \<Rightarrow> state \<Rightarrow> stmt list \<times> state" where
  "renderImports fl cf pkgId [] st = ([], st)"
| "renderImports fl cf pkgId (imp # rest) st =
     (case pkgs st imp of
        None \<Rightarrow> renderImports fl cf pkgId rest st
      | Some impPkg \<Rightarrow>
          if isIgnored fl cf impPkg then renderImports fl cf pkgId rest st
          else (case getId imp st of
                  (impId, st1) \<Rightarrow>
                    (case renderImports fl cf pkgId rest st1 of
                       (out, st2) \<Rightarrow> (EdgeStmt pkgId impId # out, st2))))"

text \<open>
  The outer loop (lines 75-107). Go visits the keys of \<^verbatim>\<open>pkgs\<close> in an order it does
  not specify; the model takes the order as a list of keys. A name in that list that is
  not a key of \<^verbatim>\<open>pkgs\<close> is no iteration of the loop.
\<close>

fun renderPkgs :: "flags \<Rightarrow> settings \<Rightarrow> string list \<Rightarrow> state \<Rightarrow> stmt list \<times> state" where
  "renderPkgs fl cf [] st = ([], st)"
| "renderPkgs fl cf (pkgName # rest) st =
     (case pkgs st pkgName of
        None \<Rightarrow> renderPkgs fl cf rest st
      | Some pkg \<Rightarrow>
          (case getId pkgName st of
             (pkgId, st1) \<Rightarrow>
               if isIgnored fl cf pkg then renderPkgs fl cf rest st1
               else if Goroot pkg \<and> \<not> delveGoroot fl
               then (case renderPkgs fl cf rest st1 of
                       (out, st3) \<Rightarrow> (NodeStmt pkgId pkgName (color pkg) # out, st3))
               else (case renderImports fl cf pkgId (getImports fl pkg) st1 of
                       (edges, st2) \<Rightarrow>
                         (case renderPkgs fl cf rest st2 of
                            (out, st3) \<Rightarrow>
                              (NodeStmt pkgId pkgName (color pkg) # edges @ out, st3)))))"

text \<open>\<^verbatim>\<open>log.Fatal\<close>: the message goes to the error stream, the process exits with status 1.\<close>

definition fatal :: "string \<Rightarrow> run" where
  "fatal msg = \<lparr>stdout = [], stderr = [msg], status = 1\<rparr>"

text \<open>
  \<^verbatim>\<open>main\<close>. Its inputs: the recursion depth the model may use, the parsed flags, the
  positional arguments, the metadata provider (\<open>Import tags path srcDir\<close> is
  \<^verbatim>\<open>buildContext.Import(path, srcDir, 0)\<close> with \<^verbatim>\<open>buildContext.BuildTags = tags\<close>), the result
  of \<^verbatim>\<open>os.Getwd()\<close>, and the order in which \<^verbatim>\<open>range\<close> visits the keys of a map. The
  result is \<open>None\<close> when the given depth does not suffice.
\<close>

definition main ::
  "nat \<Rightarrow> flags \<Rightarrow> string list \<Rightarrow> (string list \<Rightarrow> string \<Rightarrow> string \<Rightarrow> string + package)
     \<Rightarrow> string + string \<Rightarrow> ((string \<rightharpoonup> package) \<Rightarrow> string list) \<Rightarrow> run option" where
  "main depth fl args Import getwd order =
     (if length args \<noteq> 1 then Some (fatal ''need one package name to process'')
      else
        (let cf = configure fl in
         case getwd of
           Inl err \<Rightarrow> Some (fatal (''failed to get cwd: '' @ err))
         | Inr cwd \<Rightarrow>
             (case processPackage depth fl cf (Import (buildTags cf)) cwd (args ! 0) init_state of
                (Exhausted, st) \<Rightarrow> None
              | (Failed err, st) \<Rightarrow> Some (fatal err)
              | (Ok, st) \<Rightarrow>
                  Some \<lparr>stdout = [GraphOpen] @ (if horizontal fl then [RankdirLR] else [])
                                  @ fst (renderPkgs fl cf (order (pkgs st)) st) @ [GraphClose],
                        stderr = [], status = 0\<rparr>)))"

section \<open>Notions used in the statements\<close>

text \<open>The flags at their default values (lines 23-30).\<close>

definition default_flags :: flags where
  "default_flags =
     \<lparr>ignoreStdlib = False, delveGoroot = False, ignorePrefixes = [], ignorePackages = [],
      onlyPrefix = [], tagList = [], horizontal = False, includeTests = False\<rparr>"

text \<open>A descriptor without cgo files and without test imports, for the examples.\<close>

definition descriptor :: "string \<Rightarrow> bool \<Rightarrow> string list \<Rightarrow> package" where
  "descriptor path goroot imps =
     \<lparr>ImportPath = path, Goroot = goroot, CgoFiles = [], Imports = imps,
      TestImports = [], XTestImports = []\<rparr>"

text \<open>
  The invariant of the identity allocator: every identifier handed out lies below the
  counter, and no identifier belongs to two paths.
\<close>

definition ids_ok :: "state \<Rightarrow> bool" where
  "ids_ok st =
     ((\<forall>n i. ids st n = Some i \<longrightarrow> i < nextId st)
      \<and> (\<forall>a b i. ids st a = Some i \<longrightarrow> ids st b = Some i \<longrightarrow> a = b))"

definition idOf :: "state \<Rightarrow> string \<Rightarrow> int" where
  "idOf st n = the (ids st n)"

text \<open>
  A metadata provider that knows the given descriptors, each under its own import path,
  and fails for every other path.
\<close>

definition provider_of :: "package list \<Rightarrow> string list \<Rightarrow> string \<Rightarrow> string \<Rightarrow> string + package" where
  "provider_of ps tags path srcDir =
     (case find (\<lambda>p. ImportPath p = path) ps of
        None \<Rightarrow> Inl (''cannot find package '' @ path)
      | Some p \<Rightarrow> Inr p)"

text \<open>
  The first occurrence of every element, in the order of the list: what the claims call
  collapsing duplicates while preserving first-occurrence order.
\<close>

primrec keep_first :: "'a list \<Rightarrow> 'a list" where
  "keep_first [] = []"
| "keep_first (x # xs) = x # removeAll x (keep_first xs)"

fun isEdge :: "stmt \<Rightarrow> bool" where
  "isEdge (EdgeStmt i j) = True"
| "isEdge s = False"

fun isNode :: "stmt \<Rightarrow> bool" where
  "isNode (NodeStmt i l c) = True"
| "isNode s = False"

text \<open>The keys of the store are the import paths of the descriptors stored under them.\<close>

definition store_ok :: "(string \<rightharpoonup> package) \<Rightarrow> bool" where
  "store_ok m = (\<forall>k p. m k = Some p \<longrightarrow> ImportPath p = k)"

text \<open>No stored descriptor is excluded by the filter.\<close>

definition store_filtered :: "flags \<Rightarrow> settings \<Rightarrow> (string \<rightharpoonup> package) \<Rightarrow> bool" where
  "store_filtered fl cf m = (\<forall>k p. m k = Some p \<longrightarrow> \<not> isIgnored fl cf p)"

text \<open>
  The output of the two loops of \<open>main\<close>, written with a function \<open>idf\<close> from
  paths to identifiers in place of the calls of \<open>getId\<close>: \<open>kept\<close> is the test of
  line 100, \<open>edge_targets\<close> are the imports that get an edge, \<open>block\<close> is what one
  iteration of the outer loop prints, and \<open>mentioned\<close> are the paths for which that
  iteration calls \<open>getId\<close>.
\<close>

definition kept :: "flags \<Rightarrow> settings \<Rightarrow> (string \<rightharpoonup> package) \<Rightarrow> string \<Rightarrow> bool" where
  "kept fl cf m q = (case m q of None \<Rightarrow> False | Some p \<Rightarrow> \<not> isIgnored fl cf p)"

definition edge_targets :: "flags \<Rightarrow> settings \<Rightarrow> (string \<rightharpoonup> package) \<Rightarrow> package \<Rightarrow> string list" where
  "edge_targets fl cf m pkg =
     (if Goroot pkg \<and> \<not> delveGoroot fl then []
      else filter (kept fl cf m) (getImports fl pkg))"

definition mentioned :: "flags \<Rightarrow> settings \<Rightarrow> (string \<rightharpoonup> package) \<Rightarrow> string \<Rightarrow> string set" where
  "mentioned fl cf m k =
     (case m k of
        None \<Rightarrow> {}
      | Some pkg \<Rightarrow> if isIgnored fl cf pkg then {k} else insert k (set (edge_targets fl cf m pkg)))"

definition block :: "flags \<Rightarrow> settings \<Rightarrow> (string \<rightharpoonup> package) \<Rightarrow> (string \<Rightarrow> int) \<Rightarrow> string \<Rightarrow> stmt list" where
  "block fl cf m idf k =
     (case m k of
        None \<Rightarrow> []
      | Some pkg \<Rightarrow>
          if isIgnored fl cf pkg then []
          else NodeStmt (idf k) k (color pkg)
                 # map (\<lambda>q. EdgeStmt (idf k) (idf q)) (edge_targets fl cf m pkg))"

text \<open>
  A package \<^verbatim>\<open>app\<close> whose test files import \<^verbatim>\<open>lib/a\<close> again and \<^verbatim>\<open>app\<close> itself.
\<close>

definition app_with_tests :: package where
  "app_with_tests =
     \<lparr>ImportPath = ''app'', Goroot = False, CgoFiles = [], Imports = [''lib/a''],
      TestImports = [''lib/a'', ''app''], XTestImports = [''app'', ''lib/a'']\<rparr>"


text \<open>
  The keys of a map in the order of a given list: one of the orders in which \<^verbatim>\<open>range\<close>
  may visit a map whose keys all occur in the list.
\<close>

definition in_order :: "string list \<Rightarrow> (string \<rightharpoonup> package) \<Rightarrow> string list" where
  "in_order ks m = filter (\<lambda>k. m k \<noteq> None) ks"

text \<open>
  The scenario of the specification: \<^verbatim>\<open>app\<close> imports \<^verbatim>\<open>lib/a\<close> and \<^verbatim>\<open>lib/b\<close>, and
  \<^verbatim>\<open>lib/a\<close> imports \<^verbatim>\<open>lib/b\<close>; the flags of the run that excludes \<^verbatim>\<open>lib/b\<close> by name
  (\<^verbatim>\<open>-i lib/b\<close>), and the state in which its resolution ends.
\<close>

definition scenario :: "package list" where
  "scenario =
     [descriptor ''app'' False [''lib/a'', ''lib/b''],
      descriptor ''lib/a'' False [''lib/b''],
      descriptor ''lib/b'' False []]"

definition exclude_lib_b :: flags where
  "exclude_lib_b = default_flags\<lparr>ignorePackages := ''lib/b''\<rparr>"

definition resolved_without_lib_b :: state where
  "resolved_without_lib_b =
     init_state\<lparr>lookups := [''app'', ''lib/a''],
                pkgs := [''app'' \<mapsto> descriptor ''app'' False [''lib/a'', ''lib/b''],
                         ''lib/a'' \<mapsto> descriptor ''lib/a'' False [''lib/b'']]\<rparr>"


text \<open>The flags of a run that excludes the prefix \<^verbatim>\<open>lib/b\<close> (\<^verbatim>\<open>-p lib/b\<close>).\<close>

definition prefix_lib_b :: flags where
  "prefix_lib_b = default_flags\<lparr>ignorePrefixes := ''lib/b''\<rparr>"


text \<open>
  The scenario without a descriptor for \<^verbatim>\<open>lib/b\<close>, and the flags of a run that excludes
  the standard library (\<^verbatim>\<open>-s\<close>).
\<close>

definition lib_b_missing :: "package list" where
  "lib_b_missing =
     [descriptor ''app'' False [''lib/a'', ''lib/b''], descriptor ''lib/a'' False [''lib/b'']]"

definition skip_stdlib :: flags where
  "skip_stdlib = default_flags\<lparr>ignoreStdlib := True\<rparr>"


text \<open>
  Packages of the standard library: \<^verbatim>\<open>fmt\<close> as a root that imports \<^verbatim>\<open>os\<close>; and \<^verbatim>\<open>app\<close>,
  outside the standard library, importing \<^verbatim>\<open>fmt\<close> and \<^verbatim>\<open>os\<close>, where \<^verbatim>\<open>os\<close> imports a
  \<^verbatim>\<open>syscall\<close> that the provider does not know, with the state in which the resolution
  of \<^verbatim>\<open>app\<close> ends.
\<close>

definition stdlib_root :: "package list" where
  "stdlib_root = [descriptor ''fmt'' True [''os''], descriptor ''os'' True []]"

definition app_on_stdlib :: "package list" where
  "app_on_stdlib =
     [descriptor ''app'' False [''fmt'', ''os''], descriptor ''fmt'' True [''os''],
      descriptor ''os'' True [''syscall'']]"

definition resolved_app_on_stdlib :: state where
  "resolved_app_on_stdlib =
     init_state\<lparr>lookups := [''app'', ''fmt'', ''os''],
                pkgs := [''app'' \<mapsto> descriptor ''app'' False [''fmt'', ''os''],
                         ''fmt'' \<mapsto> descriptor ''fmt'' True [''os''],
                         ''os'' \<mapsto> descriptor ''os'' True [''syscall'']]\<rparr>"


text \<open>
  A provider is canonical for a search root when every descriptor it returns carries
  the import path it was asked for. A path is storable when the provider returns a
  descriptor for it that the filter does not exclude. \<open>looked_up_once\<close> is the
  invariant of a run with a canonical provider: every key of the store occurs once
  among the paths handed to the provider, and every path handed to the provider is a
  key of the store or not storable.
\<close>

definition canonical :: "(string \<Rightarrow> string \<Rightarrow> string + package) \<Rightarrow> string \<Rightarrow> bool" where
  "canonical Imp root = (\<forall>q p. Imp q root = Inr p \<longrightarrow> ImportPath p = q)"

definition storable ::
  "flags \<Rightarrow> settings \<Rightarrow> (string \<Rightarrow> string \<Rightarrow> string + package) \<Rightarrow> string \<Rightarrow> string \<Rightarrow> bool" where
  "storable fl cf Imp root q = (\<exists>p. Imp q root = Inr p \<and> \<not> isIgnored fl cf p)"

definition looked_up_once ::
  "flags \<Rightarrow> settings \<Rightarrow> (string \<Rightarrow> string \<Rightarrow> string + package) \<Rightarrow> string \<Rightarrow> state \<Rightarrow> bool" where
  "looked_up_once fl cf Imp root s =
     ((\<forall>k. k \<in> dom (pkgs s) \<longrightarrow> count_list (lookups s) k = 1)
      \<and> (\<forall>k. k \<in> set (lookups s) \<longrightarrow> k \<in> dom (pkgs s) \<or> \<not> storable fl cf Imp root k))"

text \<open>
  A provider as \<^verbatim>\<open>build.Import\<close> is for a vendored package: asked for \<^verbatim>\<open>x\<close> it returns
  the package whose import path is \<^verbatim>\<open>app/vendor/x\<close>. \<^verbatim>\<open>app\<close> imports \<^verbatim>\<open>x\<close> and
  \<^verbatim>\<open>app/sub\<close>, and \<^verbatim>\<open>app/sub\<close> imports \<^verbatim>\<open>x\<close>; \<open>resolved_vendoring\<close> is the state in
  which the resolution of \<^verbatim>\<open>app\<close> ends.
\<close>

definition vendoring :: "string list \<Rightarrow> string \<Rightarrow> string \<Rightarrow> string + package" where
  "vendoring tags path srcDir =
     (if path = ''app'' then Inr (descriptor ''app'' False [''x'', ''app/sub''])
      else if path = ''app/sub'' then Inr (descriptor ''app/sub'' False [''x''])
      else if path = ''x'' then Inr (descriptor ''app/vendor/x'' False [])
      else Inl (''cannot find package '' @ path))"

definition resolved_vendoring :: state where
  "resolved_vendoring =
     init_state\<lparr>lookups := [''app'', ''x'', ''app/sub'', ''x''],
                pkgs := [''app'' \<mapsto> descriptor ''app'' False [''x'', ''app/sub''],
                         ''app/vendor/x'' \<mapsto> descriptor ''app/vendor/x'' False [],
                         ''app/sub'' \<mapsto> descriptor ''app/sub'' False [''x'']]\<rparr>"

section \<open>The filter\<close>

lemma hasPrefixes_iff: "hasPrefixes s ps \<longleftrightarrow> (\<exists>p\<in>set ps. strings_HasPrefix s p)"
  by (induction ps) auto

lemma fold_insert_mem: "x \<in> s \<Longrightarrow> x \<in> fold insert xs s"
  by (induction xs arbitrary: s) auto

lemma C_ignored: "''C'' \<in> ignored (configure fl)"
  by (simp add: configure_def init_settings_def Let_def fold_insert_mem)

text \<open>
  Claim C1. \<open>isIgnored\<close> is true exactly when the allowlist is non-empty and the
  import path starts with none of its prefixes, or the path is in the exact-match
  denylist, or the package is in the standard library and the flag \<^verbatim>\<open>-s\<close> is set, or
  the path starts with an entry of the prefix denylist. The denylist that \<open>main\<close>
  builds always holds \<^verbatim>\<open>"C"\<close>. In particular a path that matches no prefix of a
  non-empty allowlist is excluded whatever the other settings are.
\<close>

theorem isIgnored_iff:
  "(isIgnored fl cf pkg \<longleftrightarrow>
      (onlyPrefixes cf \<noteq> []
         \<and> (\<forall>p\<in>set (onlyPrefixes cf). \<not> strings_HasPrefix (ImportPath pkg) p))
      \<or> ImportPath pkg \<in> ignored cf
      \<or> (Goroot pkg \<and> ignoreStdlib fl)
      \<or> (\<exists>p\<in>set (ignoredPrefixes cf). strings_HasPrefix (ImportPath pkg) p))
   \<and> ''C'' \<in> ignored (configure fl')
   \<and> (onlyPrefixes cf \<noteq> []
        \<and> (\<forall>p\<in>set (onlyPrefixes cf). \<not> strings_HasPrefix (ImportPath pkg) p)
        \<longrightarrow> isIgnored fl cf pkg)"
  by (auto simp: isIgnored_def hasPrefixes_iff C_ignored)

text \<open>The allowlist \<^verbatim>\<open>foo/\<close> and the path \<^verbatim>\<open>bar/baz\<close>.\<close>

theorem isIgnored_iff_witness:
  "onlyPrefixes (configure (default_flags\<lparr>onlyPrefix := ''foo/''\<rparr>)) = [''foo/'']
   \<and> \<not> strings_HasPrefix ''bar/baz'' ''foo/''
   \<and> isIgnored (default_flags\<lparr>onlyPrefix := ''foo/''\<rparr>)
        (configure (default_flags\<lparr>onlyPrefix := ''foo/''\<rparr>)) (descriptor ''bar/baz'' False [])
   \<and> ''C'' \<in> ignored (configure (default_flags\<lparr>onlyPrefix := ''foo/''\<rparr>))"
  using isIgnored_iff [of "default_flags\<lparr>onlyPrefix := ''foo/''\<rparr>"
      "configure (default_flags\<lparr>onlyPrefix := ''foo/''\<rparr>)" "descriptor ''bar/baz'' False []"
      "default_flags\<lparr>onlyPrefix := ''foo/''\<rparr>"]
  by (simp add: configure_def init_settings_def default_flags_def descriptor_def
      strings_HasPrefix_def)

section \<open>The identity allocator\<close>

lemma getId_props:
  assumes "ids_ok st" "getId name st = (i, st1)"
  shows "ids_ok st1" "ids st \<subseteq>\<^sub>m ids st1" "ids st1 name = Some i" "pkgs st1 = pkgs st"
    "lookups st1 = lookups st" "dom (ids st1) = insert name (dom (ids st))"
  using assms
  by (fastforce simp: getId_def ids_ok_def map_le_def split: option.splits if_splits)+

lemma ids_ok_inj:
  "ids_ok st \<Longrightarrow> a \<in> dom (ids st) \<Longrightarrow> b \<in> dom (ids st) \<Longrightarrow> idOf st a = idOf st b \<Longrightarrow> a = b"
  by (auto simp: ids_ok_def idOf_def)

lemma idOf_mono: "ids st \<subseteq>\<^sub>m ids st' \<Longrightarrow> n \<in> dom (ids st) \<Longrightarrow> idOf st' n = idOf st n"
  by (auto simp: idOf_def map_le_def dom_def)

lemma getIds_char:
  "ids_ok st \<Longrightarrow> getIds names st = (js, st') \<Longrightarrow>
     ids_ok st' \<and> ids st \<subseteq>\<^sub>m ids st' \<and> set names \<subseteq> dom (ids st') \<and> js = map (idOf st') names"
proof (induction names arbitrary: st js st')
  case Nil
  then show ?case by simp
next
  case (Cons n ns)
  obtain i st1 where g: "getId n st = (i, st1)" by (cases "getId n st")
  obtain ks st2 where r: "getIds ns st1 = (ks, st2)" by (cases "getIds ns st1")
  from Cons.prems g r have js: "js = i # ks" and st': "st' = st2" by auto
  note p = getId_props [OF Cons.prems(1) g]
  from Cons.IH [OF p(1) r]
  have ih: "ids_ok st2" "ids st1 \<subseteq>\<^sub>m ids st2" "set ns \<subseteq> dom (ids st2)" "ks = map (idOf st2) ns"
    by auto
  have "ids st2 n = Some i" using p(3) ih(2) by (metis domI map_le_def)
  then show ?case using ih p(2) js st' by (auto simp: idOf_def intro: map_le_trans)
qed

text \<open>
  Claim C3. The first call of \<open>getId\<close> for a path returns the counter, stores it for
  the path and adds one to the counter, which starts at 0; a call for a path that has an
  identifier returns it and changes nothing. In every sequence of calls that starts
  with no identifier assigned, two calls return the same identifier exactly when they
  are for the same path.
\<close>

theorem getId_injective_stable:
  "(ids st name = None \<longrightarrow>
      getId name st
        = (nextId st, st\<lparr>nextId := nextId st + 1, ids := (ids st)(name \<mapsto> nextId st)\<rparr>))
   \<and> (ids st name = Some i \<longrightarrow> getId name st = (i, st))
   \<and> nextId init_state = 0 \<and> ids init_state = Map.empty
   \<and> (ids st = Map.empty \<and> getIds names st = (js, st') \<longrightarrow>
        length js = length names \<and>
        (\<forall>a<length names. \<forall>b<length names. (js ! a = js ! b) = (names ! a = names ! b)))"
proof -
  have "length js = length names \<and>
        (\<forall>a<length names. \<forall>b<length names. (js ! a = js ! b) = (names ! a = names ! b))"
    if e: "ids st = Map.empty" and r: "getIds names st = (js, st')"
  proof -
    have ok: "ids_ok st" using e by (simp add: ids_ok_def)
    from getIds_char [OF ok r]
    have c: "ids_ok st'" "set names \<subseteq> dom (ids st')" "js = map (idOf st') names"
      by auto
    show ?thesis
    proof (intro conjI allI impI)
      show "length js = length names" using c(3) by simp
    next
      fix a b assume ab: "a < length names" "b < length names"
      then have "names ! a \<in> dom (ids st')" "names ! b \<in> dom (ids st')"
        using c(2) by (auto simp: subset_iff)
      with ids_ok_inj [OF c(1)]
      have "idOf st' (names ! a) = idOf st' (names ! b) \<Longrightarrow> names ! a = names ! b"
        by blast
      then show "(js ! a = js ! b) = (names ! a = names ! b)" using ab c(3) by auto
    qed
  qed
  then show ?thesis by (auto simp: getId_def init_state_def)
qed

text \<open>The calls for \<^verbatim>\<open>a\<close>, \<^verbatim>\<open>b\<close>, \<^verbatim>\<open>a\<close> return 0, 1, 0.\<close>

theorem getId_injective_stable_witness:
  "ids init_state ''a'' = None
   \<and> getId ''a'' init_state = (0, init_state\<lparr>nextId := 1, ids := [''a'' \<mapsto> 0]\<rparr>)
   \<and> ids (init_state\<lparr>nextId := 1, ids := [''a'' \<mapsto> 0]\<rparr>) ''a'' = Some 0
   \<and> getId ''a'' (init_state\<lparr>nextId := 1, ids := [''a'' \<mapsto> 0]\<rparr>)
       = (0, init_state\<lparr>nextId := 1, ids := [''a'' \<mapsto> 0]\<rparr>)
   \<and> getIds [''a'', ''b'', ''a''] init_state
       = ([0, 1, 0], init_state\<lparr>nextId := 2, ids := [''a'' \<mapsto> 0, ''b'' \<mapsto> 1]\<rparr>)
   \<and> [0, 1, 0] ! 0 = [0, 1, 0 :: int] ! 2 \<and> [0, 1, 0] ! 0 \<noteq> [0, 1, 0 :: int] ! 1"
  using getId_injective_stable [of init_state "''a''" 0 "[''a'', ''b'', ''a'']" "[0, 1, 0]"
      "init_state\<lparr>nextId := 2, ids := [''a'' \<mapsto> 0, ''b'' \<mapsto> 1]\<rparr>"]
    getId_injective_stable [of "init_state\<lparr>nextId := 1, ids := [''a'' \<mapsto> 0]\<rparr>" "''a''" 0 "[]" "[]"
      "init_state\<lparr>nextId := 1, ids := [''a'' \<mapsto> 0]\<rparr>"]
  by (simp add: getId_def init_state_def)

section \<open>getImports\<close>

lemma removeAll_keep_first: "removeAll a (keep_first ys) = keep_first (removeAll a ys)"
  by (induction ys) (auto simp: removeAll_commute [of a])

lemma getImports_loop_char:
  "getImports_loop self xs found acc
     = acc @ keep_first (filter (\<lambda>x. x \<noteq> self \<and> x \<notin> found) xs)"
proof (induction xs arbitrary: found acc)
  case Nil
  then show ?case by simp
next
  case (Cons imp rest)
  have "removeAll imp (filter (\<lambda>x. x \<noteq> self \<and> x \<notin> found) rest)
          = filter (\<lambda>x. x \<noteq> self \<and> x \<notin> insert imp found) rest"
    by (induction rest) auto
  then show ?case using Cons.IH by (auto simp: removeAll_keep_first)
qed

lemma set_keep_first: "set (keep_first xs) = set xs"
  by (induction xs) auto

lemma distinct_keep_first: "distinct (keep_first xs)"
  by (induction xs) (auto simp: distinct_removeAll)

lemma getImports_char:
  "getImports fl pkg = keep_first (filter (\<lambda>x. x \<noteq> ImportPath pkg) (allImports fl pkg))"
  by (simp add: getImports_def getImports_loop_char)

lemma getImports_distinct: "distinct (getImports fl pkg)"
  by (simp add: getImports_char distinct_keep_first)

lemma getImports_set: "set (getImports fl pkg) = set (allImports fl pkg) - {ImportPath pkg}"
  by (auto simp: getImports_char set_keep_first)

section \<open>The output loops\<close>

lemma renderImports_char:
  "ids_ok st \<Longrightarrow> renderImports fl cf pid imps st = (out, st') \<Longrightarrow>
     ids_ok st' \<and> ids st \<subseteq>\<^sub>m ids st' \<and> pkgs st' = pkgs st \<and> lookups st' = lookups st
     \<and> out = map (\<lambda>q. EdgeStmt pid (idOf st' q)) (filter (kept fl cf (pkgs st)) imps)
     \<and> set (filter (kept fl cf (pkgs st)) imps) \<subseteq> dom (ids st')"
proof (induction imps arbitrary: st out st')
  case Nil
  then show ?case by simp
next
  case (Cons imp rest)
  show ?case
  proof (cases "kept fl cf (pkgs st) imp")
    case False
    then have "renderImports fl cf pid (imp # rest) st = renderImports fl cf pid rest st"
      by (auto simp: kept_def split: option.splits)
    with Cons.prems have r: "renderImports fl cf pid rest st = (out, st')" by simp
    from Cons.IH [OF Cons.prems(1) r] False show ?thesis by simp
  next
    case True
    obtain i st1 where g: "getId imp st = (i, st1)" by (cases "getId imp st")
    obtain es st2 where r: "renderImports fl cf pid rest st1 = (es, st2)"
      by (cases "renderImports fl cf pid rest st1")
    from True g r Cons.prems(2) have o: "out = EdgeStmt pid i # es" "st' = st2"
      by (auto simp: kept_def split: option.splits)
    note p = getId_props [OF Cons.prems(1) g]
    from Cons.IH [OF p(1) r] p(4)
    have ih: "ids_ok st2" "ids st1 \<subseteq>\<^sub>m ids st2" "pkgs st2 = pkgs st" "lookups st2 = lookups st1"
      "es = map (\<lambda>q. EdgeStmt pid (idOf st2 q)) (filter (kept fl cf (pkgs st)) rest)"
      "set (filter (kept fl cf (pkgs st)) rest) \<subseteq> dom (ids st2)"
      by auto
    have i2: "ids st2 imp = Some i" using p(3) ih(2) by (metis domI map_le_def)
    show ?thesis using ih i2 p(2,5) o True
      by (auto simp: idOf_def intro: map_le_trans)
  qed
qed

lemma renderPkgs_char:
  "ids_ok st \<Longrightarrow> renderPkgs fl cf ks st = (out, st') \<Longrightarrow>
     ids_ok st' \<and> ids st \<subseteq>\<^sub>m ids st' \<and> pkgs st' = pkgs st \<and> lookups st' = lookups st
     \<and> out = concat (map (block fl cf (pkgs st) (idOf st')) ks)
     \<and> (\<forall>k\<in>set ks. mentioned fl cf (pkgs st) k \<subseteq> dom (ids st'))"
proof (induction ks arbitrary: st out st')
  case Nil
  then show ?case by simp
next
  case (Cons k rest)
  let ?m = "pkgs st"
  show ?case
  proof (cases "?m k")
    case None
    with Cons.prems have r: "renderPkgs fl cf rest st = (out, st')" by simp
    from Cons.IH [OF Cons.prems(1) r] None show ?thesis
      by (simp add: block_def mentioned_def)
  next
    case (Some pkg)
    obtain i st1 where g: "getId k st = (i, st1)" by (cases "getId k st")
    note p = getId_props [OF Cons.prems(1) g]
    have tail: ?thesis
      if r: "renderPkgs fl cf rest st2 = (o2, st')"
        and b: "\<And>idf. idf k = i \<Longrightarrow> (\<And>n. n \<in> dom (ids st2) \<Longrightarrow> idf n = idOf st2 n) \<Longrightarrow> block fl cf ?m idf k = b2"
        and o: "out = b2 @ o2"
        and s2: "ids_ok st2" "ids st1 \<subseteq>\<^sub>m ids st2" "pkgs st2 = ?m" "lookups st2 = lookups st"
        and m2: "mentioned fl cf ?m k \<subseteq> dom (ids st2)"
      for st2 o2 b2
    proof -
      from Cons.IH [OF s2(1) r] s2(3)
      have ih: "ids_ok st'" "ids st2 \<subseteq>\<^sub>m ids st'" "pkgs st' = ?m" "lookups st' = lookups st2"
        "o2 = concat (map (block fl cf ?m (idOf st')) rest)"
        "\<forall>k\<in>set rest. mentioned fl cf ?m k \<subseteq> dom (ids st')"
        by auto
      have le: "ids st \<subseteq>\<^sub>m ids st'" using p(2) s2(2) ih(2) by (blast intro: map_le_trans)
      have "ids st2 k = Some i" using p(3) s2(2) by (metis domI map_le_def)
      then have "ids st' k = Some i" using ih(2) by (metis domI map_le_def)
      then have ki: "idOf st' k = i" by (simp add: idOf_def)
      have "block fl cf ?m (idOf st') k = b2"
        using b [of "idOf st'"] ki idOf_mono [OF ih(2)] by blast
      moreover have "mentioned fl cf ?m k \<subseteq> dom (ids st')"
        using m2 ih(2) by (auto simp: map_le_def dom_def)
      ultimately show ?thesis using ih le o s2(4) by simp
    qed
    show ?thesis
    proof (cases "isIgnored fl cf pkg")
      case True
      with Some g Cons.prems(2) have r: "renderPkgs fl cf rest st1 = (out, st')" by simp
      show ?thesis
        by (rule tail [OF r, of "[]"]) (use Some True p in \<open>auto simp: block_def mentioned_def\<close>)
    next
      case False
      show ?thesis
      proof (cases "Goroot pkg \<and> \<not> delveGoroot fl")
        case True
        obtain o2 st3 where r: "renderPkgs fl cf rest st1 = (o2, st3)"
          by (cases "renderPkgs fl cf rest st1")
        with Some g Cons.prems(2) False True
        have o: "out = [NodeStmt i k (color pkg)] @ o2" "st3 = st'" by auto
        show ?thesis
          by (rule tail [OF r [unfolded o(2)] _ o(1)])
            (use Some False True p in \<open>auto simp: block_def mentioned_def edge_targets_def\<close>)
      next
        case leaf: False
        obtain es st2 where e: "renderImports fl cf i (getImports fl pkg) st1 = (es, st2)"
          by (cases "renderImports fl cf i (getImports fl pkg) st1")
        obtain o2 st3 where r: "renderPkgs fl cf rest st2 = (o2, st3)"
          by (cases "renderPkgs fl cf rest st2")
        from Some g Cons.prems(2) False leaf e r
        have o: "out = (NodeStmt i k (color pkg) # es) @ o2" "st3 = st'" by auto
        from renderImports_char [OF p(1) e] p(4)
        have c: "ids_ok st2" "ids st1 \<subseteq>\<^sub>m ids st2" "pkgs st2 = ?m" "lookups st2 = lookups st1"
          "es = map (\<lambda>q. EdgeStmt i (idOf st2 q)) (filter (kept fl cf ?m) (getImports fl pkg))"
          "set (filter (kept fl cf ?m) (getImports fl pkg)) \<subseteq> dom (ids st2)"
          by auto
        have k2: "k \<in> dom (ids st2)" using p(3) c(2) by (metis domI map_le_def)
        show ?thesis
        proof (rule tail [OF r [unfolded o(2)] _ o(1)])
          fix idf :: "string \<Rightarrow> int"
          assume "idf k = i" "\<And>n. n \<in> dom (ids st2) \<Longrightarrow> idf n = idOf st2 n"
          then show "block fl cf ?m idf k = NodeStmt i k (color pkg) # es"
            using Some False leaf c(5,6) by (auto simp: block_def edge_targets_def subset_iff)
        next
          show "mentioned fl cf ?m k \<subseteq> dom (ids st2)"
            using Some False leaf c(6) k2 by (auto simp: mentioned_def edge_targets_def)
        qed (use c p in auto)
      qed
    qed
  qed
qed

section \<open>Invariants of processPackage\<close>

lemma rangeImports_invariant:
  assumes step: "\<And>imp s r s1. P s \<Longrightarrow> rec imp s = (r, s1) \<Longrightarrow> P s1"
  shows "P st \<Longrightarrow> rangeImports rec imps st = (r, st') \<Longrightarrow> P st'"
proof (induction imps arbitrary: st)
  case Nil
  then show ?case by simp
next
  case (Cons imp rest)
  show ?case
  proof (cases "pkgs st imp = None")
    case False
    with Cons show ?thesis by simp
  next
    case True
    obtain r1 s1 where c: "rec imp st = (r1, s1)" by (cases "rec imp st")
    have p1: "P s1" using step [OF Cons.prems(1) c] .
    show ?thesis
    proof (cases r1)
      case Ok
      with True c Cons.prems(2) have "rangeImports rec rest s1 = (r, st')" by simp
      from Cons.IH [OF p1 this] show ?thesis .
    qed (use True c Cons.prems(2) p1 in auto)
  qed
qed

lemma processPackage_invariant:
  assumes look: "\<And>s n. P s \<Longrightarrow> P (s\<lparr>lookups := lookups s @ [n]\<rparr>)"
    and store: "\<And>s name pkg. P s \<Longrightarrow> Import name root = Inr pkg \<Longrightarrow> \<not> isIgnored fl cf pkg
                  \<Longrightarrow> P (s\<lparr>pkgs := (pkgs s)(ImportPath pkg \<mapsto> pkg)\<rparr>)"
  shows "P st \<Longrightarrow> processPackage n fl cf Import root name st = (r, st') \<Longrightarrow> P st'"
proof (induction n arbitrary: name st r st')
  case 0
  then show ?case by simp
next
  case (Suc n)
  show ?case
  proof (cases "name \<in> ignored cf")
    case True
    with Suc.prems show ?thesis by simp
  next
    case False
    let ?s1 = "st\<lparr>lookups := lookups st @ [name]\<rparr>"
    have p1: "P ?s1" using look [OF Suc.prems(1)] .
    show ?thesis
    proof (cases "Import name root")
      case (Inl err)
      with False Suc.prems(2) p1 show ?thesis by auto
    next
      case (Inr pkg)
      show ?thesis
      proof (cases "isIgnored fl cf pkg")
        case True
        with False Inr Suc.prems(2) p1 show ?thesis by auto
      next
        case ni: False
        let ?s2 = "?s1\<lparr>pkgs := (pkgs ?s1)(ImportPath pkg \<mapsto> pkg)\<rparr>"
        have p2: "P ?s2" using store [OF p1 Inr ni] .
        show ?thesis
        proof (cases "Goroot pkg \<and> \<not> delveGoroot fl")
          case True
          with False Inr ni Suc.prems(2) p2 show ?thesis by (auto simp: Let_def)
        next
          case leaf: False
          with False Inr ni Suc.prems(2)
          have r: "rangeImports (processPackage n fl cf Import root) (getImports fl pkg) ?s2 = (r, st')"
            by (auto simp: Let_def)
          show ?thesis
            by (rule rangeImports_invariant [where P = P, OF _ p2 r]) (rule Suc.IH)
        qed
      qed
    qed
  qed
qed

lemma processPackage_store_ok:
  "store_ok (pkgs st) \<Longrightarrow> processPackage n fl cf Import root name st = (r, st') \<Longrightarrow> store_ok (pkgs st')"
  by (rule processPackage_invariant [where P = "\<lambda>s. store_ok (pkgs s)"]) (auto simp: store_ok_def)

lemma processPackage_store_filtered:
  "store_filtered fl cf (pkgs st) \<Longrightarrow> processPackage n fl cf Import root name st = (r, st')
     \<Longrightarrow> store_filtered fl cf (pkgs st')"
  by (rule processPackage_invariant [where P = "\<lambda>s. store_filtered fl cf (pkgs s)"])
    (auto simp: store_filtered_def)

lemma processPackage_ids:
  "processPackage n fl cf Import root name st = (r, st') \<Longrightarrow> ids st' = ids st \<and> nextId st' = nextId st"
  by (rule processPackage_invariant [where P = "\<lambda>s. ids s = ids st \<and> nextId s = nextId st" and st = st])
    auto

section \<open>The printed graph\<close>

lemma edge_in_block:
  "EdgeStmt a b \<in> set (block fl cf m idf k) \<longleftrightarrow>
     (\<exists>p. m k = Some p \<and> \<not> isIgnored fl cf p \<and> a = idf k
        \<and> (\<exists>q\<in>set (edge_targets fl cf m p). b = idf q))"
  by (cases "m k") (auto simp: block_def)

lemma node_in_block:
  "NodeStmt a l c \<in> set (block fl cf m idf k) \<longleftrightarrow>
     (l = k \<and> (\<exists>p. m k = Some p \<and> \<not> isIgnored fl cf p \<and> a = idf k \<and> c = color p))"
  by (cases "m k") (auto simp: block_def)

lemma edges_of_block:
  "filter isEdge (block fl cf m idf k)
     = (case m k of None \<Rightarrow> []
        | Some p \<Rightarrow> if isIgnored fl cf p then []
                    else map (\<lambda>q. EdgeStmt (idf k) (idf q)) (edge_targets fl cf m p))"
  by (cases "m k") (auto simp: block_def filter_map comp_def)

lemma edge_targets_distinct: "distinct (edge_targets fl cf m p)"
  by (simp add: edge_targets_def getImports_distinct)

lemma edge_targets_kept: "q \<in> set (edge_targets fl cf m p) \<Longrightarrow> kept fl cf m q \<and> q \<in> set (getImports fl p)"
  by (auto simp: edge_targets_def split: if_splits)

lemma edges_of_block_distinct:
  assumes "inj_on idf N" "mentioned fl cf m k \<subseteq> N"
  shows "distinct (filter isEdge (block fl cf m idf k))"
proof (cases "m k")
  case None
  then show ?thesis by (simp add: edges_of_block)
next
  case (Some p)
  show ?thesis
  proof (cases "isIgnored fl cf p")
    case True
    with Some show ?thesis by (simp add: edges_of_block)
  next
    case False
    with Some assms(2) have sub: "set (edge_targets fl cf m p) \<subseteq> N"
      by (auto simp: mentioned_def)
    have "inj_on (\<lambda>q. EdgeStmt (idf k) (idf q)) (set (edge_targets fl cf m p))"
      using assms(1) sub by (auto simp: inj_on_def subset_iff)
    with Some False show ?thesis
      by (simp add: edges_of_block distinct_map edge_targets_distinct)
  qed
qed

lemma mentioned_self: "m k = Some p \<Longrightarrow> k \<in> mentioned fl cf m k"
  by (simp add: mentioned_def)

lemma edges_distinct:
  assumes inj: "inj_on idf N"
  shows "distinct ks \<Longrightarrow> \<forall>k\<in>set ks. mentioned fl cf m k \<subseteq> N \<Longrightarrow>
     distinct (filter isEdge (concat (map (block fl cf m idf) ks)))"
proof (induction ks)
  case Nil
  then show ?case by simp
next
  case (Cons k rest)
  have d1: "distinct (filter isEdge (block fl cf m idf k))"
    using edges_of_block_distinct [OF inj] Cons.prems(2) by simp
  have d2: "distinct (filter isEdge (concat (map (block fl cf m idf) rest)))"
    using Cons by simp
  have disj: "set (filter isEdge (block fl cf m idf k))
                \<inter> set (filter isEdge (concat (map (block fl cf m idf) rest))) = {}"
  proof (rule ccontr)
    assume "\<not> ?thesis"
    then obtain s where s: "s \<in> set (block fl cf m idf k)" "isEdge s"
      "s \<in> set (concat (map (block fl cf m idf) rest))" by auto
    from s(2) obtain a b where ab: "s = EdgeStmt a b" by (cases s) auto
    from s(1) ab obtain p where p: "m k = Some p" "a = idf k" by (auto simp: edge_in_block)
    from s(3) ab obtain k' p' where k': "k' \<in> set rest" "m k' = Some p'" "a = idf k'"
      by (auto simp: edge_in_block)
    have "k \<in> mentioned fl cf m k" "k' \<in> mentioned fl cf m k'"
      using p(1) k'(2) by (simp_all add: mentioned_self)
    then have "k \<in> N" "k' \<in> N" using Cons.prems(2) k'(1) by auto
    with inj p(2) k'(3) have "k = k'" by (auto simp: inj_on_def)
    with Cons.prems(1) k'(1) show False by simp
  qed
  show ?case using d1 d2 disj by simp
qed

lemma no_self_edge:
  assumes inj: "inj_on idf N" and ok: "store_ok m"
    and men: "\<forall>k\<in>set ks. mentioned fl cf m k \<subseteq> N"
  shows "EdgeStmt a a \<notin> set (concat (map (block fl cf m idf) ks))"
proof
  assume "EdgeStmt a a \<in> set (concat (map (block fl cf m idf) ks))"
  then obtain k p q where k: "k \<in> set ks" "m k = Some p" "\<not> isIgnored fl cf p" "a = idf k"
    "q \<in> set (edge_targets fl cf m p)" "a = idf q"
    by (auto simp: edge_in_block)
  have "mentioned fl cf m k = insert k (set (edge_targets fl cf m p))"
    using k(2,3) by (simp add: mentioned_def)
  moreover have "mentioned fl cf m k \<subseteq> N" using men k(1) by simp
  ultimately have "k \<in> N" "q \<in> N" using k(5) by auto
  with inj k(4,6) have "k = q" by (auto simp: inj_on_def)
  moreover have "ImportPath p = k" using ok k(2) by (simp add: store_ok_def)
  moreover have "q \<in> set (getImports fl p)" using k(5) edge_targets_kept by blast
  ultimately show False by (simp add: getImports_set)
qed

lemma ids_ok_inj_on: "ids_ok st \<Longrightarrow> inj_on (idOf st) (dom (ids st))"
  by (auto simp: inj_on_def ids_ok_def idOf_def)

text \<open>What main prints after a successful resolution.\<close>

lemma main_char:
  assumes run: "processPackage depth fl (configure fl) (Import (buildTags (configure fl))) cwd root
                  init_state = (Ok, st)"
  shows "\<exists>idf N. inj_on idf N
           \<and> (\<forall>k\<in>set (order (pkgs st)). mentioned fl (configure fl) (pkgs st) k \<subseteq> N)
           \<and> main depth fl [root] Import (Inr cwd) order
               = Some \<lparr>stdout = [GraphOpen] @ (if horizontal fl then [RankdirLR] else [])
                          @ concat (map (block fl (configure fl) (pkgs st) idf) (order (pkgs st)))
                          @ [GraphClose],
                       stderr = [], status = 0\<rparr>"
proof -
  obtain out st' where r: "renderPkgs fl (configure fl) (order (pkgs st)) st = (out, st')"
    by (cases "renderPkgs fl (configure fl) (order (pkgs st)) st")
  from processPackage_ids [OF run] have "ids st = Map.empty" by (simp add: init_state_def)
  then have ok: "ids_ok st" by (simp add: ids_ok_def)
  from renderPkgs_char [OF ok r]
  have c: "ids_ok st'" "out = concat (map (block fl (configure fl) (pkgs st) (idOf st')) (order (pkgs st)))"
    "\<forall>k\<in>set (order (pkgs st)). mentioned fl (configure fl) (pkgs st) k \<subseteq> dom (ids st')"
    by auto
  have "main depth fl [root] Import (Inr cwd) order
               = Some \<lparr>stdout = [GraphOpen] @ (if horizontal fl then [RankdirLR] else [])
                          @ out @ [GraphClose], stderr = [], status = 0\<rparr>"
    using run r by (simp add: main_def)
  with c ids_ok_inj_on [OF c(1)] show ?thesis
    by (intro exI [of _ "idOf st'"] exI [of _ "dom (ids st')"]) simp
qed

lemma main_store:
  assumes run: "processPackage depth fl (configure fl) (Import (buildTags (configure fl))) cwd root
                  init_state = (Ok, st)"
  shows "store_ok (pkgs st)" "store_filtered fl (configure fl) (pkgs st)"
proof -
  have "store_ok (pkgs init_state)" by (simp add: init_state_def store_ok_def)
  then show "store_ok (pkgs st)" by (rule processPackage_store_ok [OF _ run])
  have "store_filtered fl (configure fl) (pkgs init_state)"
    by (simp add: init_state_def store_filtered_def)
  then show "store_filtered fl (configure fl) (pkgs st)"
    by (rule processPackage_store_filtered [OF _ run])
qed

section \<open>Edges of the printed graph\<close>

text \<open>
  Claim C4. \<open>getImports\<close> returns the combined import list without the entries
  equal to the package's own import path and with every other path once, at the place
  of its first occurrence. In the output of a run whose loop visits every key of the
  store once, every edge statement occurs once, no edge statement goes from an
  identifier to itself, and an identifier is the identifier of one path only; so the
  graph has at most one edge from a package to another and no self-loop.
\<close>

theorem render_edges_once_no_self_loop:
  "getImports fl pkg = keep_first (filter (\<lambda>i. i \<noteq> ImportPath pkg) (allImports fl pkg))
   \<and> distinct (getImports fl pkg) \<and> ImportPath pkg \<notin> set (getImports fl pkg)
   \<and> (processPackage depth fl (configure fl) (Import (buildTags (configure fl))) cwd root init_state
         = (Ok, st)
       \<and> distinct (order (pkgs st))
       \<longrightarrow> (\<exists>r. main depth fl [root] Import (Inr cwd) order = Some r
              \<and> distinct (filter isEdge (stdout r))
              \<and> (\<forall>i. EdgeStmt i i \<notin> set (stdout r))
              \<and> (\<forall>i l c l' c'. NodeStmt i l c \<in> set (stdout r) \<and> NodeStmt i l' c' \<in> set (stdout r)
                    \<longrightarrow> l = l')))"
proof -
  have "\<exists>r. main depth fl [root] Import (Inr cwd) order = Some r
              \<and> distinct (filter isEdge (stdout r))
              \<and> (\<forall>i. EdgeStmt i i \<notin> set (stdout r))
              \<and> (\<forall>i l c l' c'. NodeStmt i l c \<in> set (stdout r) \<and> NodeStmt i l' c' \<in> set (stdout r)
                    \<longrightarrow> l = l')"
    if run: "processPackage depth fl (configure fl) (Import (buildTags (configure fl))) cwd root
               init_state = (Ok, st)"
      and d: "distinct (order (pkgs st))"
  proof -
    let ?cf = "configure fl" and ?m = "pkgs st" and ?ks = "order (pkgs st)"
    from main_char [where Import = Import and order = order, OF run] obtain idf N where
      inj: "inj_on idf N" and men: "\<forall>k\<in>set ?ks. mentioned fl ?cf ?m k \<subseteq> N"
      and m: "main depth fl [root] Import (Inr cwd) order
               = Some \<lparr>stdout = [GraphOpen] @ (if horizontal fl then [RankdirLR] else [])
                          @ concat (map (block fl ?cf ?m idf) ?ks) @ [GraphClose],
                       stderr = [], status = 0\<rparr>"
      by blast
    let ?out = "concat (map (block fl ?cf ?m idf) ?ks)"
    have e: "distinct (filter isEdge ?out)" using edges_distinct [OF inj d men] .
    have s: "EdgeStmt i i \<notin> set ?out" for i
      using no_self_edge [OF inj main_store(1) [where Import = Import, OF run] men] .
    have n: "l = l'" if "NodeStmt i l c \<in> set ?out" "NodeStmt i l' c' \<in> set ?out" for i l c l' c'
    proof -
      from that obtain p p' where "l \<in> set ?ks" "?m l = Some p" "i = idf l"
        "l' \<in> set ?ks" "?m l' = Some p'" "i = idf l'"
        by (auto simp: node_in_block)
      moreover from this have "l \<in> N" "l' \<in> N" using men mentioned_self by blast+
      ultimately show ?thesis using inj by (auto simp: inj_on_def)
    qed
    define r where "r = \<lparr>stdout = [GraphOpen] @ (if horizontal fl then [RankdirLR] else [])
                          @ ?out @ [GraphClose], stderr = [], status = 0\<rparr>"
    have so: "stdout r = [GraphOpen] @ (if horizontal fl then [RankdirLR] else []) @ ?out @ [GraphClose]"
      by (simp add: r_def)
    have e': "distinct (filter isEdge (stdout r))" using e by (simp add: so)
    have s': "EdgeStmt i i \<notin> set (stdout r)" for i using s [of i] by (simp add: so)
    have n': "l = l'" if "NodeStmt i l c \<in> set (stdout r)" "NodeStmt i l' c' \<in> set (stdout r)"
      for i l c l' c'
    proof -
      from that have "NodeStmt i l c \<in> set ?out" "NodeStmt i l' c' \<in> set ?out"
        by (auto simp: so split: if_splits)
      then show ?thesis by (rule n)
    qed
    have "main depth fl [root] Import (Inr cwd) order = Some r" using m by (simp add: r_def)
    with e' s' n' show ?thesis by blast
  qed
  then show ?thesis
    using getImports_char getImports_distinct getImports_set by auto
qed

lemma app_with_tests_imports:
  "getImports (default_flags\<lparr>includeTests := True\<rparr>) app_with_tests = [''lib/a'']"
  by (simp add: getImports_def allImports_def app_with_tests_def default_flags_def)

lemma app_with_tests_resolved:
  "processPackage (Suc (Suc 0)) (default_flags\<lparr>includeTests := True\<rparr>)
         (configure (default_flags\<lparr>includeTests := True\<rparr>))
         (provider_of [app_with_tests, descriptor ''lib/a'' False []]
            (buildTags (configure (default_flags\<lparr>includeTests := True\<rparr>))))
         ''/src'' ''app'' init_state
       = (Ok, init_state\<lparr>lookups := [''app'', ''lib/a''],
                 pkgs := [''app'' \<mapsto> app_with_tests, ''lib/a'' \<mapsto> descriptor ''lib/a'' False []]\<rparr>)"
  by (simp add: getImports_def allImports_def app_with_tests_def default_flags_def provider_of_def
     configure_def init_settings_def init_state_def descriptor_def isIgnored_def)

lemma app_with_tests_output:
  "main (Suc (Suc 0)) (default_flags\<lparr>includeTests := True\<rparr>) [''app'']
         (provider_of [app_with_tests, descriptor ''lib/a'' False []]) (Inr ''/src'')
         (\<lambda>m. [''app'', ''lib/a''])
       = Some \<lparr>stdout = [GraphOpen, NodeStmt 0 ''app'' ''paleturquoise'', EdgeStmt 0 1,
                 NodeStmt 1 ''lib/a'' ''paleturquoise'', GraphClose], stderr = [], status = 0\<rparr>"
  by (simp add: main_def getImports_def allImports_def app_with_tests_def default_flags_def provider_of_def
     configure_def init_settings_def init_state_def descriptor_def isIgnored_def getId_def color_def)

text \<open>
  The package \<open>app_with_tests\<close> with test imports included: \<^verbatim>\<open>lib/a\<close> is imported
  three times and \<^verbatim>\<open>app\<close> itself twice; the output has the one edge from 0 to 1.
\<close>

theorem render_edges_once_no_self_loop_witness:
  "getImports (default_flags\<lparr>includeTests := True\<rparr>) app_with_tests = [''lib/a'']
   \<and> processPackage (Suc (Suc 0)) (default_flags\<lparr>includeTests := True\<rparr>)
         (configure (default_flags\<lparr>includeTests := True\<rparr>))
         (provider_of [app_with_tests, descriptor ''lib/a'' False []]
            (buildTags (configure (default_flags\<lparr>includeTests := True\<rparr>))))
         ''/src'' ''app'' init_state
       = (Ok, init_state\<lparr>lookups := [''app'', ''lib/a''],
                 pkgs := [''app'' \<mapsto> app_with_tests, ''lib/a'' \<mapsto> descriptor ''lib/a'' False []]\<rparr>)
   \<and> distinct [''app'', ''lib/a'']
   \<and> main (Suc (Suc 0)) (default_flags\<lparr>includeTests := True\<rparr>) [''app'']
         (provider_of [app_with_tests, descriptor ''lib/a'' False []]) (Inr ''/src'')
         (\<lambda>m. [''app'', ''lib/a''])
       = Some \<lparr>stdout = [GraphOpen, NodeStmt 0 ''app'' ''paleturquoise'', EdgeStmt 0 1,
                 NodeStmt 1 ''lib/a'' ''paleturquoise'', GraphClose], stderr = [], status = 0\<rparr>
   \<and> distinct (filter isEdge [GraphOpen, NodeStmt 0 ''app'' ''paleturquoise'', EdgeStmt 0 1,
                 NodeStmt 1 ''lib/a'' ''paleturquoise'', GraphClose])
   \<and> EdgeStmt 0 0 \<notin> set [GraphOpen, NodeStmt 0 ''app'' ''paleturquoise'', EdgeStmt 0 1,
                 NodeStmt 1 ''lib/a'' ''paleturquoise'', GraphClose]"
proof -
  have d: "distinct [''app'', ''lib/a'']" by simp
  from render_edges_once_no_self_loop [of "default_flags\<lparr>includeTests := True\<rparr>" app_with_tests
      "Suc (Suc 0)" "provider_of [app_with_tests, descriptor ''lib/a'' False []]" "''/src''" "''app''"
      _ "\<lambda>m. [''app'', ''lib/a'']"] app_with_tests_resolved d
  obtain r where r: "main (Suc (Suc 0)) (default_flags\<lparr>includeTests := True\<rparr>) [''app'']
         (provider_of [app_with_tests, descriptor ''lib/a'' False []]) (Inr ''/src'')
         (\<lambda>m. [''app'', ''lib/a'']) = Some r"
    "distinct (filter isEdge (stdout r))" "EdgeStmt 0 0 \<notin> set (stdout r)"
    by blast
  from r(1) have "r = \<lparr>stdout = [GraphOpen, NodeStmt 0 ''app'' ''paleturquoise'', EdgeStmt 0 1,
                 NodeStmt 1 ''lib/a'' ''paleturquoise'', GraphClose], stderr = [], status = 0\<rparr>"
    by (simp only: app_with_tests_output option.inject)
  with r(2,3) have "distinct (filter isEdge [GraphOpen, NodeStmt 0 ''app'' ''paleturquoise'', EdgeStmt 0 1,
                 NodeStmt 1 ''lib/a'' ''paleturquoise'', GraphClose])"
    "EdgeStmt 0 0 \<notin> set [GraphOpen, NodeStmt 0 ''app'' ''paleturquoise'', EdgeStmt 0 1,
                 NodeStmt 1 ''lib/a'' ''paleturquoise'', GraphClose]"
    by simp_all
  with app_with_tests_imports app_with_tests_resolved d app_with_tests_output
  show ?thesis by (intro conjI)
qed

lemma stdout_frame:
  "s \<in> set ([GraphOpen] @ (if h then [RankdirLR] else []) @ out @ [GraphClose])
     \<longleftrightarrow> s = GraphOpen \<or> (h \<and> s = RankdirLR) \<or> s \<in> set out \<or> s = GraphClose"
  by auto

lemma kept_iff: "kept fl cf m q \<longleftrightarrow> (\<exists>p. m q = Some p \<and> \<not> isIgnored fl cf p)"
  by (cases "m q") (auto simp: kept_def)

lemma block_mem:
  "k \<in> set ks \<Longrightarrow> s \<in> set (block fl cf m idf k) \<Longrightarrow> s \<in> set (concat (map (block fl cf m idf) ks))"
  by auto

section \<open>The runs of the scenario\<close>

lemma scenario_resolved:
  "processPackage (Suc (Suc (Suc 0))) default_flags (configure default_flags)
         (provider_of scenario (buildTags (configure default_flags))) ''/src'' ''app'' init_state
       = (Ok, init_state\<lparr>lookups := [''app'', ''lib/a'', ''lib/b''],
                 pkgs := [''app'' \<mapsto> descriptor ''app'' False [''lib/a'', ''lib/b''],
                          ''lib/a'' \<mapsto> descriptor ''lib/a'' False [''lib/b''],
                          ''lib/b'' \<mapsto> descriptor ''lib/b'' False []]\<rparr>)"
  by (simp add: getImports_def allImports_def scenario_def default_flags_def provider_of_def
     configure_def init_settings_def init_state_def descriptor_def isIgnored_def)

lemma scenario_output:
  "main (Suc (Suc (Suc 0))) default_flags [''app''] (provider_of scenario) (Inr ''/src'')
         (\<lambda>m. [''app'', ''lib/a'', ''lib/b''])
       = Some \<lparr>stdout = [GraphOpen, NodeStmt 0 ''app'' ''paleturquoise'', EdgeStmt 0 1, EdgeStmt 0 2,
                 NodeStmt 1 ''lib/a'' ''paleturquoise'', EdgeStmt 1 2,
                 NodeStmt 2 ''lib/b'' ''paleturquoise'', GraphClose], stderr = [], status = 0\<rparr>"
  by (simp add: main_def getImports_def allImports_def scenario_def default_flags_def provider_of_def
     configure_def init_settings_def init_state_def descriptor_def isIgnored_def getId_def color_def)

lemma exclude_lib_b_resolved:
  "processPackage (Suc (Suc (Suc d))) exclude_lib_b (configure exclude_lib_b)
         (provider_of scenario (buildTags (configure exclude_lib_b))) ''/src'' ''app'' init_state
       = (Ok, resolved_without_lib_b)"
  by (simp add: getImports_def allImports_def scenario_def default_flags_def provider_of_def
     configure_def init_settings_def init_state_def descriptor_def isIgnored_def exclude_lib_b_def
     resolved_without_lib_b_def)

lemma exclude_lib_b_output:
  "main (Suc (Suc (Suc d))) exclude_lib_b [''app''] (provider_of scenario) (Inr ''/src'')
         (in_order [''app'', ''lib/a'', ''lib/b''])
       = Some \<lparr>stdout = [GraphOpen, NodeStmt 0 ''app'' ''paleturquoise'', EdgeStmt 0 1,
                 NodeStmt 1 ''lib/a'' ''paleturquoise'', GraphClose], stderr = [], status = 0\<rparr>"
  by (simp add: main_def getImports_def allImports_def scenario_def default_flags_def provider_of_def
     configure_def init_settings_def init_state_def descriptor_def isIgnored_def getId_def color_def
     exclude_lib_b_def in_order_def)

section \<open>Edges join printed nodes\<close>

text \<open>
  Claim C10. In the output of a run whose loop visits every key of the store, both
  identifiers of every edge statement are identifiers of node statements of the same
  output.
\<close>

theorem edges_between_nodes:
  "processPackage depth fl (configure fl) (Import (buildTags (configure fl))) cwd root init_state
     = (Ok, st)
   \<and> dom (pkgs st) \<subseteq> set (order (pkgs st))
   \<longrightarrow> (\<exists>r. main depth fl [root] Import (Inr cwd) order = Some r
          \<and> (\<forall>a b. EdgeStmt a b \<in> set (stdout r)
                \<longrightarrow> (\<exists>l c. NodeStmt a l c \<in> set (stdout r))
                    \<and> (\<exists>l c. NodeStmt b l c \<in> set (stdout r))))"
proof (intro impI, elim conjE)
  assume run: "processPackage depth fl (configure fl) (Import (buildTags (configure fl))) cwd root
               init_state = (Ok, st)"
    and all: "dom (pkgs st) \<subseteq> set (order (pkgs st))"
  let ?cf = "configure fl" and ?m = "pkgs st" and ?ks = "order (pkgs st)"
  from main_char [where Import = Import and order = order, OF run] obtain idf N where
    m: "main depth fl [root] Import (Inr cwd) order
               = Some \<lparr>stdout = [GraphOpen] @ (if horizontal fl then [RankdirLR] else [])
                          @ concat (map (block fl ?cf ?m idf) ?ks) @ [GraphClose],
                       stderr = [], status = 0\<rparr>"
    by blast
  let ?out = "concat (map (block fl ?cf ?m idf) ?ks)"
  define r where "r = \<lparr>stdout = [GraphOpen] @ (if horizontal fl then [RankdirLR] else [])
                          @ ?out @ [GraphClose], stderr = [], status = 0\<rparr>"
  have so: "s \<in> set (stdout r) \<longleftrightarrow>
      s = GraphOpen \<or> (horizontal fl \<and> s = RankdirLR) \<or> s \<in> set ?out \<or> s = GraphClose" for s
    unfolding r_def by (simp only: run.simps stdout_frame)
  have "(\<exists>l c. NodeStmt a l c \<in> set (stdout r)) \<and> (\<exists>l c. NodeStmt b l c \<in> set (stdout r))"
    if "EdgeStmt a b \<in> set (stdout r)" for a b
  proof -
    from that have "EdgeStmt a b \<in> set ?out" by (simp add: so)
    then obtain k p q where k: "k \<in> set ?ks" "?m k = Some p" "\<not> isIgnored fl ?cf p" "a = idf k"
      "q \<in> set (edge_targets fl ?cf ?m p)" "b = idf q"
      by (auto simp: edge_in_block)
    have "NodeStmt a k (color p) \<in> set (block fl ?cf ?m idf k)"
      using k(2,3,4) by (simp add: node_in_block)
    then have n1: "NodeStmt a k (color p) \<in> set ?out" using k(1) by (rule block_mem [rotated])
    from k(5) have "kept fl ?cf ?m q" using edge_targets_kept by blast
    then obtain pq where pq: "?m q = Some pq" "\<not> isIgnored fl ?cf pq" by (auto simp: kept_iff)
    then have qk: "q \<in> set ?ks" using all by auto
    have "NodeStmt b q (color pq) \<in> set (block fl ?cf ?m idf q)"
      using pq k(6) by (simp add: node_in_block)
    then have n2: "NodeStmt b q (color pq) \<in> set ?out" using qk by (rule block_mem [rotated])
    from n1 n2 show ?thesis unfolding so by blast
  qed
  moreover have "main depth fl [root] Import (Inr cwd) order = Some r" using m by (simp add: r_def)
  ultimately show "\<exists>r. main depth fl [root] Import (Inr cwd) order = Some r
          \<and> (\<forall>a b. EdgeStmt a b \<in> set (stdout r)
                \<longrightarrow> (\<exists>l c. NodeStmt a l c \<in> set (stdout r))
                    \<and> (\<exists>l c. NodeStmt b l c \<in> set (stdout r)))"
    by blast
qed

text \<open>The scenario: the edge from 1 to 2, and the node statements of 1 and of 2.\<close>

theorem edges_between_nodes_witness:
  "processPackage (Suc (Suc (Suc 0))) default_flags (configure default_flags)
         (provider_of scenario (buildTags (configure default_flags))) ''/src'' ''app'' init_state
       = (Ok, init_state\<lparr>lookups := [''app'', ''lib/a'', ''lib/b''],
                 pkgs := [''app'' \<mapsto> descriptor ''app'' False [''lib/a'', ''lib/b''],
                          ''lib/a'' \<mapsto> descriptor ''lib/a'' False [''lib/b''],
                          ''lib/b'' \<mapsto> descriptor ''lib/b'' False []]\<rparr>)
   \<and> dom [''app'' \<mapsto> descriptor ''app'' False [''lib/a'', ''lib/b''],
           ''lib/a'' \<mapsto> descriptor ''lib/a'' False [''lib/b''],
           ''lib/b'' \<mapsto> descriptor ''lib/b'' False []] \<subseteq> set [''app'', ''lib/a'', ''lib/b'']
   \<and> main (Suc (Suc (Suc 0))) default_flags [''app''] (provider_of scenario) (Inr ''/src'')
         (\<lambda>m. [''app'', ''lib/a'', ''lib/b''])
       = Some \<lparr>stdout = [GraphOpen, NodeStmt 0 ''app'' ''paleturquoise'', EdgeStmt 0 1, EdgeStmt 0 2,
                 NodeStmt 1 ''lib/a'' ''paleturquoise'', EdgeStmt 1 2,
                 NodeStmt 2 ''lib/b'' ''paleturquoise'', GraphClose], stderr = [], status = 0\<rparr>
   \<and> EdgeStmt 1 2 \<in> set [GraphOpen, NodeStmt 0 ''app'' ''paleturquoise'', EdgeStmt 0 1, EdgeStmt 0 2,
                 NodeStmt 1 ''lib/a'' ''paleturquoise'', EdgeStmt 1 2,
                 NodeStmt 2 ''lib/b'' ''paleturquoise'', GraphClose]
   \<and> (\<exists>l c. NodeStmt 1 l c \<in> set [GraphOpen, NodeStmt 0 ''app'' ''paleturquoise'', EdgeStmt 0 1,
                 EdgeStmt 0 2, NodeStmt 1 ''lib/a'' ''paleturquoise'', EdgeStmt 1 2,
                 NodeStmt 2 ''lib/b'' ''paleturquoise'', GraphClose])
   \<and> (\<exists>l c. NodeStmt 2 l c \<in> set [GraphOpen, NodeStmt 0 ''app'' ''paleturquoise'', EdgeStmt 0 1,
                 EdgeStmt 0 2, NodeStmt 1 ''lib/a'' ''paleturquoise'', EdgeStmt 1 2,
                 NodeStmt 2 ''lib/b'' ''paleturquoise'', GraphClose])"
proof -
  let ?out = "[GraphOpen, NodeStmt 0 ''app'' ''paleturquoise'', EdgeStmt 0 1, EdgeStmt 0 2,
                 NodeStmt 1 ''lib/a'' ''paleturquoise'', EdgeStmt 1 2,
                 NodeStmt 2 ''lib/b'' ''paleturquoise'', GraphClose]"
  have d: "dom (pkgs (init_state\<lparr>lookups := [''app'', ''lib/a'', ''lib/b''],
                 pkgs := [''app'' \<mapsto> descriptor ''app'' False [''lib/a'', ''lib/b''],
                          ''lib/a'' \<mapsto> descriptor ''lib/a'' False [''lib/b''],
                          ''lib/b'' \<mapsto> descriptor ''lib/b'' False []]\<rparr>))
            \<subseteq> set [''app'', ''lib/a'', ''lib/b'']"
    by simp
  from edges_between_nodes [of "Suc (Suc (Suc 0))" default_flags "provider_of scenario" "''/src''"
      "''app''" _ "\<lambda>m. [''app'', ''lib/a'', ''lib/b'']"] scenario_resolved d
  obtain r where r: "main (Suc (Suc (Suc 0))) default_flags [''app''] (provider_of scenario)
        (Inr ''/src'') (\<lambda>m. [''app'', ''lib/a'', ''lib/b'']) = Some r"
    "\<forall>a b. EdgeStmt a b \<in> set (stdout r)
        \<longrightarrow> (\<exists>l c. NodeStmt a l c \<in> set (stdout r)) \<and> (\<exists>l c. NodeStmt b l c \<in> set (stdout r))"
    by blast
  from r(1) have "r = \<lparr>stdout = ?out, stderr = [], status = 0\<rparr>"
    by (simp only: scenario_output option.inject)
  then have so: "stdout r = ?out" by simp
  have e: "EdgeStmt 1 2 \<in> set ?out" by simp
  with r(2) so have "(\<exists>l c. NodeStmt 1 l c \<in> set ?out) \<and> (\<exists>l c. NodeStmt 2 l c \<in> set ?out)"
    by metis
  with scenario_resolved d scenario_output e show ?thesis by simp
qed

section \<open>The store holds no excluded descriptor\<close>

text \<open>
  Claim C9. \<open>processPackage\<close> keeps the invariant that no descriptor in the store is
  excluded by the filter, and the invariant holds of the empty store. So after a
  resolution, when the loop of \<open>main\<close> visits the keys of the store, every stored
  descriptor gets its node statement, and every import of a stored descriptor (a package
  of the standard library without \<^verbatim>\<open>-d\<close> apart) that is a key of the store gets its
  edge statement: the two checks of the output loop drop nothing that is stored.
\<close>

theorem stored_descriptors_pass_filter:
  "(store_filtered fl cf (pkgs s0) \<and> processPackage n fl cf Imp srcDir name s0 = (r0, s1)
      \<longrightarrow> store_filtered fl cf (pkgs s1))
   \<and> store_filtered fl cf (pkgs init_state)
   \<and> (processPackage depth fl (configure fl) (Import (buildTags (configure fl))) cwd root init_state
         = (Ok, st)
       \<and> set (order (pkgs st)) = dom (pkgs st)
       \<longrightarrow> store_filtered fl (configure fl) (pkgs st)
           \<and> (\<exists>r idf. main depth fl [root] Import (Inr cwd) order = Some r
                 \<and> inj_on idf (dom (pkgs st))
                 \<and> (\<forall>k p. pkgs st k = Some p
                       \<longrightarrow> NodeStmt (idf k) k (color p) \<in> set (stdout r)
                           \<and> (\<not> (Goroot p \<and> \<not> delveGoroot fl)
                                \<longrightarrow> (\<forall>q\<in>set (getImports fl p) \<inter> dom (pkgs st).
                                       EdgeStmt (idf k) (idf q) \<in> set (stdout r))))))"
proof (intro conjI impI; (elim conjE)?)
  show "store_filtered fl cf (pkgs init_state)" by (simp add: store_filtered_def init_state_def)
next
  assume "store_filtered fl cf (pkgs s0)" "processPackage n fl cf Imp srcDir name s0 = (r0, s1)"
  then show "store_filtered fl cf (pkgs s1)" by (rule processPackage_store_filtered)
next
  assume run: "processPackage depth fl (configure fl) (Import (buildTags (configure fl))) cwd root
               init_state = (Ok, st)"
  show "store_filtered fl (configure fl) (pkgs st)"
    using main_store(2) [where Import = Import, OF run] .
next
  assume run: "processPackage depth fl (configure fl) (Import (buildTags (configure fl))) cwd root
               init_state = (Ok, st)"
    and all: "set (order (pkgs st)) = dom (pkgs st)"
  let ?cf = "configure fl" and ?m = "pkgs st" and ?ks = "order (pkgs st)"
  have sf: "store_filtered fl ?cf ?m" using main_store(2) [where Import = Import, OF run] .
  from main_char [where Import = Import and order = order, OF run] obtain idf N where
    inj: "inj_on idf N" and men: "\<forall>k\<in>set ?ks. mentioned fl ?cf ?m k \<subseteq> N" and
    m: "main depth fl [root] Import (Inr cwd) order
               = Some \<lparr>stdout = [GraphOpen] @ (if horizontal fl then [RankdirLR] else [])
                          @ concat (map (block fl ?cf ?m idf) ?ks) @ [GraphClose],
                       stderr = [], status = 0\<rparr>"
    by blast
  let ?out = "concat (map (block fl ?cf ?m idf) ?ks)"
  define r where "r = \<lparr>stdout = [GraphOpen] @ (if horizontal fl then [RankdirLR] else [])
                          @ ?out @ [GraphClose], stderr = [], status = 0\<rparr>"
  have so: "s \<in> set (stdout r) \<longleftrightarrow>
      s = GraphOpen \<or> (horizontal fl \<and> s = RankdirLR) \<or> s \<in> set ?out \<or> s = GraphClose" for s
    unfolding r_def by (simp only: run.simps stdout_frame)
  have "dom ?m \<subseteq> N"
  proof
    fix k assume "k \<in> dom ?m"
    then obtain p where "?m k = Some p" by auto
    then have "k \<in> mentioned fl ?cf ?m k" by (rule mentioned_self)
    moreover have "k \<in> set ?ks" using all \<open>k \<in> dom ?m\<close> by simp
    ultimately show "k \<in> N" using men by blast
  qed
  then have inj': "inj_on idf (dom ?m)" using inj by (rule inj_on_subset [rotated])
  have body: "NodeStmt (idf k) k (color p) \<in> set (stdout r)
        \<and> (\<not> (Goroot p \<and> \<not> delveGoroot fl)
             \<longrightarrow> (\<forall>q\<in>set (getImports fl p) \<inter> dom ?m. EdgeStmt (idf k) (idf q) \<in> set (stdout r)))"
    if kp: "?m k = Some p" for k p
  proof -
    have ni: "\<not> isIgnored fl ?cf p" using sf kp by (auto simp: store_filtered_def)
    have kk: "k \<in> set ?ks" using all kp by auto
    have "NodeStmt (idf k) k (color p) \<in> set (block fl ?cf ?m idf k)"
      using kp ni by (simp add: node_in_block)
    then have n: "NodeStmt (idf k) k (color p) \<in> set ?out" using kk by (rule block_mem [rotated])
    have e: "EdgeStmt (idf k) (idf q) \<in> set ?out"
      if nl: "\<not> (Goroot p \<and> \<not> delveGoroot fl)" and q: "q \<in> set (getImports fl p) \<inter> dom ?m" for q
    proof -
      from q obtain pq where pq: "?m q = Some pq" by auto
      then have "\<not> isIgnored fl ?cf pq" using sf by (auto simp: store_filtered_def)
      with pq have "kept fl ?cf ?m q" by (simp add: kept_iff)
      with q nl have "q \<in> set (edge_targets fl ?cf ?m p)" by (auto simp: edge_targets_def)
      then have "EdgeStmt (idf k) (idf q) \<in> set (block fl ?cf ?m idf k)"
        using kp ni by (auto simp: edge_in_block)
      then show ?thesis using kk by (rule block_mem [rotated])
    qed
    show ?thesis using n e by (simp add: so)
  qed
  have "main depth fl [root] Import (Inr cwd) order = Some r" using m by (simp add: r_def)
  with inj' body
  show "\<exists>r idf. main depth fl [root] Import (Inr cwd) order = Some r
                 \<and> inj_on idf (dom (pkgs st))
                 \<and> (\<forall>k p. pkgs st k = Some p
                       \<longrightarrow> NodeStmt (idf k) k (color p) \<in> set (stdout r)
                           \<and> (\<not> (Goroot p \<and> \<not> delveGoroot fl)
                                \<longrightarrow> (\<forall>q\<in>set (getImports fl p) \<inter> dom (pkgs st).
                                       EdgeStmt (idf k) (idf q) \<in> set (stdout r))))"
    by blast
qed

text \<open>The scenario with \<^verbatim>\<open>lib/b\<close> excluded by name.\<close>

theorem stored_descriptors_pass_filter_witness:
  "store_filtered exclude_lib_b (configure exclude_lib_b) (pkgs init_state)
   \<and> processPackage (Suc (Suc (Suc 0))) exclude_lib_b (configure exclude_lib_b)
         (provider_of scenario (buildTags (configure exclude_lib_b))) ''/src'' ''app'' init_state
       = (Ok, resolved_without_lib_b)
   \<and> set (in_order [''app'', ''lib/a'', ''lib/b''] (pkgs resolved_without_lib_b))
       = dom (pkgs resolved_without_lib_b)
   \<and> store_filtered exclude_lib_b (configure exclude_lib_b) (pkgs resolved_without_lib_b)
   \<and> main (Suc (Suc (Suc 0))) exclude_lib_b [''app''] (provider_of scenario) (Inr ''/src'')
         (in_order [''app'', ''lib/a'', ''lib/b''])
       = Some \<lparr>stdout = [GraphOpen, NodeStmt 0 ''app'' ''paleturquoise'', EdgeStmt 0 1,
                 NodeStmt 1 ''lib/a'' ''paleturquoise'', GraphClose], stderr = [], status = 0\<rparr>"
proof -
  have o: "set (in_order [''app'', ''lib/a'', ''lib/b''] (pkgs resolved_without_lib_b))
       = dom (pkgs resolved_without_lib_b)"
    by (auto simp: in_order_def resolved_without_lib_b_def)
  from stored_descriptors_pass_filter [of exclude_lib_b "configure exclude_lib_b" init_state
      "Suc (Suc (Suc 0))" "provider_of scenario (buildTags (configure exclude_lib_b))" "''/src''"
      "''app''" Ok resolved_without_lib_b "Suc (Suc (Suc 0))" "provider_of scenario" "''/src''"
      "''app''" resolved_without_lib_b "in_order [''app'', ''lib/a'', ''lib/b'']"]
    exclude_lib_b_resolved [of 0] o
  have "store_filtered exclude_lib_b (configure exclude_lib_b) (pkgs init_state)"
    "store_filtered exclude_lib_b (configure exclude_lib_b) (pkgs resolved_without_lib_b)"
    by blast+
  with exclude_lib_b_resolved [of 0] o exclude_lib_b_output [of 0] show ?thesis by (intro conjI)
qed

section \<open>Pruning at a filtered package\<close>

text \<open>
  Claim C6. When the provider returns a descriptor that the filter excludes,
  \<open>processPackage\<close> returns \<^verbatim>\<open>nil\<close>: the store is as before and the provider has been
  called for this path only, so no import of the package is explored (a path in the
  exact-match denylist is not even looked up). In the scenario with \<^verbatim>\<open>lib/b\<close> in the
  exact-match denylist the store ends with \<^verbatim>\<open>app\<close> and \<^verbatim>\<open>lib/a\<close>, and in either order of
  the two keys the output has the nodes of \<^verbatim>\<open>app\<close> and \<^verbatim>\<open>lib/a\<close> and the edge from
  \<^verbatim>\<open>app\<close> to \<^verbatim>\<open>lib/a\<close>, and nothing for \<^verbatim>\<open>lib/b\<close>.
\<close>

theorem filtered_descriptor_prunes:
  "(pkgName \<notin> ignored cf \<and> Imp pkgName srcDir = Inr pkg \<and> isIgnored fl cf pkg
      \<longrightarrow> processPackage (Suc n) fl cf Imp srcDir pkgName st
            = (Ok, st\<lparr>lookups := lookups st @ [pkgName]\<rparr>))
   \<and> (pkgName \<in> ignored cf \<longrightarrow> processPackage (Suc n) fl cf Imp srcDir pkgName st = (Ok, st))
   \<and> processPackage (Suc (Suc (Suc d))) exclude_lib_b (configure exclude_lib_b)
         (provider_of scenario (buildTags (configure exclude_lib_b))) ''/src'' ''app'' init_state
       = (Ok, resolved_without_lib_b)
   \<and> (order (pkgs resolved_without_lib_b) = [''app'', ''lib/a'']
        \<longrightarrow> main (Suc (Suc (Suc d))) exclude_lib_b [''app''] (provider_of scenario) (Inr ''/src'') order
             = Some \<lparr>stdout = [GraphOpen, NodeStmt 0 ''app'' ''paleturquoise'', EdgeStmt 0 1,
                       NodeStmt 1 ''lib/a'' ''paleturquoise'', GraphClose],
                     stderr = [], status = 0\<rparr>)
   \<and> (order (pkgs resolved_without_lib_b) = [''lib/a'', ''app'']
        \<longrightarrow> main (Suc (Suc (Suc d))) exclude_lib_b [''app''] (provider_of scenario) (Inr ''/src'') order
             = Some \<lparr>stdout = [GraphOpen, NodeStmt 0 ''lib/a'' ''paleturquoise'',
                       NodeStmt 1 ''app'' ''paleturquoise'', EdgeStmt 1 0, GraphClose],
                     stderr = [], status = 0\<rparr>)"
proof (intro conjI impI)
  show "processPackage (Suc (Suc (Suc d))) exclude_lib_b (configure exclude_lib_b)
         (provider_of scenario (buildTags (configure exclude_lib_b))) ''/src'' ''app'' init_state
       = (Ok, resolved_without_lib_b)"
    by (rule exclude_lib_b_resolved)
next
  assume o: "order (pkgs resolved_without_lib_b) = [''app'', ''lib/a'']"
  have "renderPkgs exclude_lib_b (configure exclude_lib_b) [''app'', ''lib/a''] resolved_without_lib_b
         = ([NodeStmt 0 ''app'' ''paleturquoise'', EdgeStmt 0 1,
                       NodeStmt 1 ''lib/a'' ''paleturquoise''],
            resolved_without_lib_b\<lparr>nextId := 2, ids := [''app'' \<mapsto> 0, ''lib/a'' \<mapsto> 1]\<rparr>)"
    by (simp add: getImports_def allImports_def default_flags_def
     configure_def init_settings_def init_state_def descriptor_def isIgnored_def getId_def color_def
     exclude_lib_b_def resolved_without_lib_b_def)
  with o show "main (Suc (Suc (Suc d))) exclude_lib_b [''app''] (provider_of scenario) (Inr ''/src'') order
             = Some \<lparr>stdout = [GraphOpen, NodeStmt 0 ''app'' ''paleturquoise'', EdgeStmt 0 1,
                       NodeStmt 1 ''lib/a'' ''paleturquoise'', GraphClose],
                     stderr = [], status = 0\<rparr>"
    unfolding main_def using exclude_lib_b_resolved [of d]
    by (simp add: exclude_lib_b_def default_flags_def del: processPackage.simps)
next
  assume o: "order (pkgs resolved_without_lib_b) = [''lib/a'', ''app'']"
  have "renderPkgs exclude_lib_b (configure exclude_lib_b) [''lib/a'', ''app''] resolved_without_lib_b
         = ([NodeStmt 0 ''lib/a'' ''paleturquoise'',
                       NodeStmt 1 ''app'' ''paleturquoise'', EdgeStmt 1 0],
            resolved_without_lib_b\<lparr>nextId := 2, ids := [''lib/a'' \<mapsto> 0, ''app'' \<mapsto> 1]\<rparr>)"
    by (simp add: getImports_def allImports_def default_flags_def
     configure_def init_settings_def init_state_def descriptor_def isIgnored_def getId_def color_def
     exclude_lib_b_def resolved_without_lib_b_def)
  with o show "main (Suc (Suc (Suc d))) exclude_lib_b [''app''] (provider_of scenario) (Inr ''/src'') order
             = Some \<lparr>stdout = [GraphOpen, NodeStmt 0 ''lib/a'' ''paleturquoise'',
                       NodeStmt 1 ''app'' ''paleturquoise'', EdgeStmt 1 0, GraphClose],
                     stderr = [], status = 0\<rparr>"
    unfolding main_def using exclude_lib_b_resolved [of d]
    by (simp add: exclude_lib_b_def default_flags_def del: processPackage.simps)
qed simp_all

text \<open>
  A package \<^verbatim>\<open>lib/b\<close> that imports an unknown \<^verbatim>\<open>lib/c\<close>, with the prefix \<^verbatim>\<open>lib/b\<close>
  excluded; and the two orders of the scenario.
\<close>

theorem filtered_descriptor_prunes_witness:
  "''lib/b'' \<notin> ignored (configure prefix_lib_b)
   \<and> provider_of [descriptor ''lib/b'' False [''lib/c'']] [] ''lib/b'' ''/src''
       = Inr (descriptor ''lib/b'' False [''lib/c''])
   \<and> isIgnored prefix_lib_b (configure prefix_lib_b) (descriptor ''lib/b'' False [''lib/c''])
   \<and> processPackage (Suc 0) prefix_lib_b (configure prefix_lib_b)
         (provider_of [descriptor ''lib/b'' False [''lib/c'']] []) ''/src'' ''lib/b'' init_state
       = (Ok, init_state\<lparr>lookups := lookups init_state @ [''lib/b'']\<rparr>)
   \<and> ''lib/b'' \<in> ignored (configure exclude_lib_b)
   \<and> processPackage (Suc 0) exclude_lib_b (configure exclude_lib_b)
         (provider_of scenario []) ''/src'' ''lib/b'' init_state
       = (Ok, init_state)
   \<and> in_order [''app'', ''lib/a'', ''lib/b''] (pkgs resolved_without_lib_b) = [''app'', ''lib/a'']
   \<and> main (Suc (Suc (Suc 0))) exclude_lib_b [''app''] (provider_of scenario) (Inr ''/src'')
         (in_order [''app'', ''lib/a'', ''lib/b''])
       = Some \<lparr>stdout = [GraphOpen, NodeStmt 0 ''app'' ''paleturquoise'', EdgeStmt 0 1,
                 NodeStmt 1 ''lib/a'' ''paleturquoise'', GraphClose], stderr = [], status = 0\<rparr>
   \<and> in_order [''lib/b'', ''lib/a'', ''app''] (pkgs resolved_without_lib_b) = [''lib/a'', ''app'']
   \<and> main (Suc (Suc (Suc 0))) exclude_lib_b [''app''] (provider_of scenario) (Inr ''/src'')
         (in_order [''lib/b'', ''lib/a'', ''app''])
       = Some \<lparr>stdout = [GraphOpen, NodeStmt 0 ''lib/a'' ''paleturquoise'',
                 NodeStmt 1 ''app'' ''paleturquoise'', EdgeStmt 1 0, GraphClose],
               stderr = [], status = 0\<rparr>"
proof -
  have h1: "''lib/b'' \<notin> ignored (configure prefix_lib_b)"
    by (simp add: prefix_lib_b_def default_flags_def configure_def init_settings_def)
  have h2: "provider_of [descriptor ''lib/b'' False [''lib/c'']] [] ''lib/b'' ''/src''
       = Inr (descriptor ''lib/b'' False [''lib/c''])"
    by (simp add: provider_of_def descriptor_def)
  have h3: "isIgnored prefix_lib_b (configure prefix_lib_b) (descriptor ''lib/b'' False [''lib/c''])"
    by (simp add: prefix_lib_b_def default_flags_def configure_def init_settings_def isIgnored_def
        descriptor_def strings_HasPrefix_def)
  have h4: "''lib/b'' \<in> ignored (configure exclude_lib_b)"
    by (simp add: exclude_lib_b_def default_flags_def configure_def init_settings_def)
  have o1: "in_order [''app'', ''lib/a'', ''lib/b''] (pkgs resolved_without_lib_b) = [''app'', ''lib/a'']"
    by (simp add: in_order_def resolved_without_lib_b_def)
  have o2: "in_order [''lib/b'', ''lib/a'', ''app''] (pkgs resolved_without_lib_b) = [''lib/a'', ''app'']"
    by (simp add: in_order_def resolved_without_lib_b_def)
  note a = filtered_descriptor_prunes [of "''lib/b''" "configure prefix_lib_b"
      "provider_of [descriptor ''lib/b'' False [''lib/c'']] []" "''/src''"
      "descriptor ''lib/b'' False [''lib/c'']" prefix_lib_b 0 init_state 0
      "in_order [''app'', ''lib/a'', ''lib/b'']"]
  note b = filtered_descriptor_prunes [of "''lib/b''" "configure exclude_lib_b"
      "provider_of scenario []" "''/src''" "descriptor ''lib/b'' False []" exclude_lib_b 0 init_state 0
      "in_order [''lib/b'', ''lib/a'', ''app'']"]
  from a h1 h2 h3 o1 have c1: "processPackage (Suc 0) prefix_lib_b (configure prefix_lib_b)
         (provider_of [descriptor ''lib/b'' False [''lib/c'']] []) ''/src'' ''lib/b'' init_state
       = (Ok, init_state\<lparr>lookups := lookups init_state @ [''lib/b'']\<rparr>)"
    and c2: "main (Suc (Suc (Suc 0))) exclude_lib_b [''app''] (provider_of scenario) (Inr ''/src'')
         (in_order [''app'', ''lib/a'', ''lib/b''])
       = Some \<lparr>stdout = [GraphOpen, NodeStmt 0 ''app'' ''paleturquoise'', EdgeStmt 0 1,
                 NodeStmt 1 ''lib/a'' ''paleturquoise'', GraphClose], stderr = [], status = 0\<rparr>"
    by blast+
  from b h4 o2 have c3: "processPackage (Suc 0) exclude_lib_b (configure exclude_lib_b)
         (provider_of scenario []) ''/src'' ''lib/b'' init_state = (Ok, init_state)"
    and c4: "main (Suc (Suc (Suc 0))) exclude_lib_b [''app''] (provider_of scenario) (Inr ''/src'')
         (in_order [''lib/b'', ''lib/a'', ''app''])
       = Some \<lparr>stdout = [GraphOpen, NodeStmt 0 ''lib/a'' ''paleturquoise'',
                 NodeStmt 1 ''app'' ''paleturquoise'', EdgeStmt 1 0, GraphClose],
               stderr = [], status = 0\<rparr>"
    by blast+
  from h1 h2 h3 c1 h4 c3 o1 c2 o2 c4 show ?thesis by (intro conjI)
qed

section \<open>Provider calls and the depth of recursion\<close>

lemma rangeImports_lookups:
  assumes step: "\<And>imp s r s1. rec imp s = (r, s1) \<Longrightarrow>
      \<exists>new. lookups s1 = lookups s @ new
        \<and> (\<forall>p c. p \<in> set new \<longrightarrow> Imp p root = Inl c \<longrightarrow> r = Failed (''failed to import '' @ p @ '': '' @ c))"
  shows "rangeImports rec imps st = (r, st') \<Longrightarrow>
      \<exists>new. lookups st' = lookups st @ new
        \<and> (\<forall>p c. p \<in> set new \<longrightarrow> Imp p root = Inl c \<longrightarrow> r = Failed (''failed to import '' @ p @ '': '' @ c))"
proof (induction imps arbitrary: st)
  case Nil
  then show ?case by simp
next
  case (Cons imp rest)
  show ?case
  proof (cases "pkgs st imp = None")
    case False
    with Cons show ?thesis by simp
  next
    case True
    obtain r1 s1 where c: "rec imp st = (r1, s1)" by (cases "rec imp st")
    from step [OF c] obtain new1 where n1: "lookups s1 = lookups st @ new1"
      "\<forall>p c. p \<in> set new1 \<longrightarrow> Imp p root = Inl c \<longrightarrow> r1 = Failed (''failed to import '' @ p @ '': '' @ c)"
      by blast
    show ?thesis
    proof (cases r1)
      case Ok
      with True c Cons.prems have "rangeImports rec rest s1 = (r, st')" by simp
      from Cons.IH [OF this] obtain new2 where n2: "lookups st' = lookups s1 @ new2"
        "\<forall>p c. p \<in> set new2 \<longrightarrow> Imp p root = Inl c \<longrightarrow> r = Failed (''failed to import '' @ p @ '': '' @ c)"
        by blast
      have "lookups st' = lookups st @ (new1 @ new2)" using n1(1) n2(1) by simp
      moreover have "\<forall>p c. p \<in> set (new1 @ new2) \<longrightarrow> Imp p root = Inl c
          \<longrightarrow> r = Failed (''failed to import '' @ p @ '': '' @ c)"
        using n1(2) n2(2) Ok by auto
      ultimately show ?thesis by blast
    next
      case (Failed e)
      with True c Cons.prems have "r = r1" "st' = s1" by auto
      with n1 show ?thesis by blast
    next
      case Exhausted
      with True c Cons.prems have "r = r1" "st' = s1" by auto
      with n1 show ?thesis by blast
    qed
  qed
qed

lemma processPackage_lookups:
  "processPackage n fl cf Imp root name st = (r, st') \<Longrightarrow>
      \<exists>new. lookups st' = lookups st @ new
        \<and> (\<forall>p c. p \<in> set new \<longrightarrow> Imp p root = Inl c \<longrightarrow> r = Failed (''failed to import '' @ p @ '': '' @ c))"
proof (induction n arbitrary: name st r st')
  case 0
  then show ?case by simp
next
  case (Suc n)
  show ?case
  proof (cases "name \<in> ignored cf")
    case True
    with Suc.prems show ?thesis by simp
  next
    case False
    let ?s1 = "st\<lparr>lookups := lookups st @ [name]\<rparr>"
    show ?thesis
    proof (cases "Imp name root")
      case (Inl err)
      with False Suc.prems have "r = Failed (''failed to import '' @ name @ '': '' @ err)" "st' = ?s1"
        by auto
      then have "lookups st' = lookups st @ [name]"
        "\<forall>p c. p \<in> set [name] \<longrightarrow> Imp p root = Inl c \<longrightarrow> r = Failed (''failed to import '' @ p @ '': '' @ c)"
        using Inl by auto
      then show ?thesis by blast
    next
      case (Inr pkg)
      have good: "\<forall>p c. p \<in> set [name] \<longrightarrow> Imp p root = Inl c \<longrightarrow> r = Failed (''failed to import '' @ p @ '': '' @ c)"
        using Inr by simp
      show ?thesis
      proof (cases "isIgnored fl cf pkg")
        case True
        with False Inr Suc.prems have "lookups st' = lookups st @ [name]" by auto
        with good show ?thesis by blast
      next
        case ni: False
        let ?s2 = "?s1\<lparr>pkgs := (pkgs ?s1)(ImportPath pkg \<mapsto> pkg)\<rparr>"
        show ?thesis
        proof (cases "Goroot pkg \<and> \<not> delveGoroot fl")
          case True
          with False Inr ni Suc.prems have "lookups st' = lookups st @ [name]" by (auto simp: Let_def)
          with good show ?thesis by blast
        next
          case leaf: False
          with False Inr ni Suc.prems
          have r: "rangeImports (processPackage n fl cf Imp root) (getImports fl pkg) ?s2 = (r, st')"
            by (auto simp: Let_def)
          have "\<exists>new. lookups st' = lookups ?s2 @ new
              \<and> (\<forall>p c. p \<in> set new \<longrightarrow> Imp p root = Inl c
                    \<longrightarrow> r = Failed (''failed to import '' @ p @ '': '' @ c))"
            by (rule rangeImports_lookups [where rec = "processPackage n fl cf Imp root", OF _ r])
              (rule Suc.IH)
          then obtain new where n: "lookups st' = lookups ?s2 @ new"
            "\<forall>p c. p \<in> set new \<longrightarrow> Imp p root = Inl c \<longrightarrow> r = Failed (''failed to import '' @ p @ '': '' @ c)"
            by blast
          have "lookups st' = lookups st @ ([name] @ new)" using n(1) by simp
          moreover have "\<forall>p c. p \<in> set ([name] @ new) \<longrightarrow> Imp p root = Inl c
              \<longrightarrow> r = Failed (''failed to import '' @ p @ '': '' @ c)"
            using n(2) Inr by auto
          ultimately show ?thesis by blast
        qed
      qed
    qed
  qed
qed

lemma rangeImports_mono:
  assumes step: "\<And>imp s r s1. rec imp s = (r, s1) \<Longrightarrow> r \<noteq> Exhausted \<Longrightarrow> rec' imp s = (r, s1)"
  shows "rangeImports rec imps st = (r, st') \<Longrightarrow> r \<noteq> Exhausted \<Longrightarrow> rangeImports rec' imps st = (r, st')"
proof (induction imps arbitrary: st)
  case Nil
  then show ?case by simp
next
  case (Cons imp rest)
  show ?case
  proof (cases "pkgs st imp = None")
    case False
    then obtain y where y: "pkgs st imp = Some y" by auto
    with Cons.prems have t: "rangeImports rec rest st = (r, st')" by simp
    from Cons.IH [OF t Cons.prems(2)] y show ?thesis by simp
  next
    case True
    obtain r1 s1 where c: "rec imp st = (r1, s1)" by (cases "rec imp st")
    show ?thesis
    proof (cases r1)
      case Ok
      with True c Cons.prems have t: "rangeImports rec rest s1 = (r, st')" by simp
      have "rec' imp st = (Ok, s1)" using step [OF c] Ok by simp
      with True Cons.IH [OF t Cons.prems(2)] show ?thesis by simp
    next
      case (Failed e)
      with True c Cons.prems have "r = r1" "st' = s1" by auto
      moreover have "rec' imp st = (r1, s1)" using step [OF c] Failed by simp
      ultimately show ?thesis using True Failed by simp
    next
      case Exhausted
      with True c Cons.prems show ?thesis by auto
    qed
  qed
qed

lemma processPackage_Suc:
  "processPackage n fl cf Imp root name st = (r, st') \<Longrightarrow> r \<noteq> Exhausted
     \<Longrightarrow> processPackage (Suc n) fl cf Imp root name st = (r, st')"
proof (induction n arbitrary: name st r st')
  case 0
  then show ?case by simp
next
  case (Suc n)
  show ?case
  proof (cases "name \<in> ignored cf")
    case True
    with Suc.prems show ?thesis by simp
  next
    case False
    show ?thesis
    proof (cases "Imp name root")
      case (Inl err)
      with False Suc.prems show ?thesis by simp
    next
      case (Inr pkg)
      show ?thesis
      proof (cases "isIgnored fl cf pkg \<or> (Goroot pkg \<and> \<not> delveGoroot fl)")
        case True
        with False Inr Suc.prems show ?thesis by (auto simp: Let_def)
      next
        case nl: False
        let ?s2 = "st\<lparr>lookups := lookups st @ [name], pkgs := (pkgs st)(ImportPath pkg \<mapsto> pkg)\<rparr>"
        from False Inr nl Suc.prems(1)
        have r: "rangeImports (processPackage n fl cf Imp root) (getImports fl pkg) ?s2 = (r, st')"
          by (auto simp: Let_def)
        have "rangeImports (processPackage (Suc n) fl cf Imp root) (getImports fl pkg) ?s2 = (r, st')"
          by (rule rangeImports_mono [where rec = "processPackage n fl cf Imp root",
                OF _ r Suc.prems(2)]) (rule Suc.IH)
        with False Inr nl show ?thesis by (auto simp: Let_def)
      qed
    qed
  qed
qed

lemma processPackage_mono:
  "processPackage n fl cf Imp root name st = (r, st') \<Longrightarrow> r \<noteq> Exhausted \<Longrightarrow> n \<le> n'
     \<Longrightarrow> processPackage n' fl cf Imp root name st = (r, st')"
proof (induction n')
  case 0
  then show ?case by simp
next
  case (Suc n')
  show ?case
  proof (cases "n \<le> n'")
    case True
    from Suc.IH [OF Suc.prems(1,2) True] Suc.prems(2) show ?thesis by (rule processPackage_Suc)
  next
    case False
    with Suc.prems(3) have "n = Suc n'" by simp
    with Suc.prems(1) show ?thesis by simp
  qed
qed

section \<open>A failing provider ends the run\<close>

text \<open>
  Claim C7. A call of \<open>processPackage\<close> for which the provider fails returns the error
  that names the path and the provider's message. In a run, if any path handed to the
  provider is one for which it fails, then the resolution as a whole returns that error,
  however deep in the recursion the call was, and \<open>main\<close> prints nothing on standard
  output, writes the message to the error stream and exits with status 1; this is so for
  every depth of recursion from the one that reaches the call.
\<close>

theorem provider_failure_aborts:
  "(pkgName \<notin> ignored cf \<and> Imp pkgName srcDir = Inl cause
      \<longrightarrow> processPackage (Suc n) fl cf Imp srcDir pkgName s0
            = (Failed (''failed to import '' @ pkgName @ '': '' @ cause),
               s0\<lparr>lookups := lookups s0 @ [pkgName]\<rparr>))
   \<and> (processPackage depth fl (configure fl) (Import (buildTags (configure fl))) cwd root init_state
         = (r, st)
       \<and> p \<in> set (lookups st) \<and> Import (buildTags (configure fl)) p cwd = Inl cause'
       \<longrightarrow> r = Failed (''failed to import '' @ p @ '': '' @ cause')
           \<and> (\<forall>d\<ge>depth. main d fl [root] Import (Inr cwd) order
                  = Some \<lparr>stdout = [], stderr = [''failed to import '' @ p @ '': '' @ cause'],
                          status = 1\<rparr>))"
proof (intro conjI impI; (elim conjE)?)
  assume "pkgName \<notin> ignored cf" "Imp pkgName srcDir = Inl cause"
  then show "processPackage (Suc n) fl cf Imp srcDir pkgName s0
            = (Failed (''failed to import '' @ pkgName @ '': '' @ cause),
               s0\<lparr>lookups := lookups s0 @ [pkgName]\<rparr>)"
    by simp
next
  assume run: "processPackage depth fl (configure fl) (Import (buildTags (configure fl))) cwd root
                init_state = (r, st)"
    and p: "p \<in> set (lookups st)" "Import (buildTags (configure fl)) p cwd = Inl cause'"
  from processPackage_lookups [OF run] obtain new where
    "lookups st = lookups init_state @ new"
    "\<forall>q c. q \<in> set new \<longrightarrow> Import (buildTags (configure fl)) q cwd = Inl c
        \<longrightarrow> r = Failed (''failed to import '' @ q @ '': '' @ c)"
    by blast
  with p show r: "r = Failed (''failed to import '' @ p @ '': '' @ cause')"
    by (simp add: init_state_def)
  show "\<forall>d\<ge>depth. main d fl [root] Import (Inr cwd) order
                  = Some \<lparr>stdout = [], stderr = [''failed to import '' @ p @ '': '' @ cause'],
                          status = 1\<rparr>"
  proof (intro allI impI)
    fix d assume "depth \<le> d"
    with run r
    have "processPackage d fl (configure fl) (Import (buildTags (configure fl))) cwd root init_state
            = (Failed (''failed to import '' @ p @ '': '' @ cause'), st)"
      using processPackage_mono by blast
    then show "main d fl [root] Import (Inr cwd) order
                  = Some \<lparr>stdout = [], stderr = [''failed to import '' @ p @ '': '' @ cause'],
                          status = 1\<rparr>"
      by (simp add: main_def fatal_def)
  qed
qed

text \<open>The scenario without \<^verbatim>\<open>lib/b\<close>: the third call, two levels down, fails.\<close>

lemma lib_b_missing_resolved:
  "processPackage (Suc (Suc (Suc 0))) default_flags (configure default_flags)
      (provider_of lib_b_missing (buildTags (configure default_flags))) ''/src'' ''app'' init_state
   = (Failed ''failed to import lib/b: cannot find package lib/b'',
      init_state\<lparr>lookups := [''app'', ''lib/a'', ''lib/b''],
                pkgs := [''app'' \<mapsto> descriptor ''app'' False [''lib/a'', ''lib/b''],
                         ''lib/a'' \<mapsto> descriptor ''lib/a'' False [''lib/b'']]\<rparr>)"
  by (simp add: getImports_def allImports_def lib_b_missing_def default_flags_def provider_of_def
     configure_def init_settings_def init_state_def descriptor_def isIgnored_def)

theorem provider_failure_aborts_witness:
  "''lib/b'' \<notin> ignored (configure default_flags)
   \<and> provider_of lib_b_missing [] ''lib/b'' ''/src'' = Inl ''cannot find package lib/b''
   \<and> processPackage (Suc 0) default_flags (configure default_flags) (provider_of lib_b_missing [])
        ''/src'' ''lib/b'' init_state
       = (Failed ''failed to import lib/b: cannot find package lib/b'',
          init_state\<lparr>lookups := lookups init_state @ [''lib/b'']\<rparr>)
   \<and> processPackage (Suc (Suc (Suc 0))) default_flags (configure default_flags)
        (provider_of lib_b_missing (buildTags (configure default_flags))) ''/src'' ''app'' init_state
       = (Failed ''failed to import lib/b: cannot find package lib/b'',
          init_state\<lparr>lookups := [''app'', ''lib/a'', ''lib/b''],
                pkgs := [''app'' \<mapsto> descriptor ''app'' False [''lib/a'', ''lib/b''],
                         ''lib/a'' \<mapsto> descriptor ''lib/a'' False [''lib/b'']]\<rparr>)
   \<and> main (Suc (Suc (Suc 0))) default_flags [''app''] (provider_of lib_b_missing) (Inr ''/src'')
        (in_order [''app'', ''lib/a'', ''lib/b''])
       = Some \<lparr>stdout = [], stderr = [''failed to import lib/b: cannot find package lib/b''],
               status = 1\<rparr>"
proof -
  let ?st = "init_state\<lparr>lookups := [''app'', ''lib/a'', ''lib/b''],
                pkgs := [''app'' \<mapsto> descriptor ''app'' False [''lib/a'', ''lib/b''],
                         ''lib/a'' \<mapsto> descriptor ''lib/a'' False [''lib/b'']]\<rparr>"
  have h1: "''lib/b'' \<notin> ignored (configure default_flags)"
    by (simp add: default_flags_def configure_def init_settings_def)
  have h2: "provider_of lib_b_missing tags ''lib/b'' ''/src'' = Inl ''cannot find package lib/b''"
    for tags
    by (simp add: provider_of_def lib_b_missing_def descriptor_def)
  have h3: "''lib/b'' \<in> set (lookups ?st)" by simp
  have m: "''failed to import '' @ ''lib/b'' @ '': '' @ ''cannot find package lib/b''
            = ''failed to import lib/b: cannot find package lib/b''"
    by simp
  note t = provider_failure_aborts [of "''lib/b''" "configure default_flags"
      "provider_of lib_b_missing []" "''/src''" "''cannot find package lib/b''" 0 default_flags
      init_state "Suc (Suc (Suc 0))" "provider_of lib_b_missing" "''/src''" "''app''"
      "Failed ''failed to import lib/b: cannot find package lib/b''" ?st "''lib/b''"
      "''cannot find package lib/b''" "in_order [''app'', ''lib/a'', ''lib/b'']", unfolded m]
  from t h1 h2 have c1: "processPackage (Suc 0) default_flags (configure default_flags)
        (provider_of lib_b_missing []) ''/src'' ''lib/b'' init_state
       = (Failed ''failed to import lib/b: cannot find package lib/b'',
          init_state\<lparr>lookups := lookups init_state @ [''lib/b'']\<rparr>)"
    by blast
  from t lib_b_missing_resolved h3 h2
  have "\<forall>d\<ge>Suc (Suc (Suc 0)). main d default_flags [''app''] (provider_of lib_b_missing)
        (Inr ''/src'') (in_order [''app'', ''lib/a'', ''lib/b''])
       = Some \<lparr>stdout = [], stderr = [''failed to import lib/b: cannot find package lib/b''],
               status = 1\<rparr>"
    by blast
  then have c2: "main (Suc (Suc (Suc 0))) default_flags [''app''] (provider_of lib_b_missing)
        (Inr ''/src'') (in_order [''app'', ''lib/a'', ''lib/b''])
       = Some \<lparr>stdout = [], stderr = [''failed to import lib/b: cannot find package lib/b''],
               status = 1\<rparr>"
    by blast
  from h1 h2 [of "[]"] c1 lib_b_missing_resolved c2 show ?thesis by (intro conjI)
qed

section \<open>A root without imports\<close>

text \<open>
  Claim C8, as stated, fails: with \<^verbatim>\<open>-s\<close> the root \<^verbatim>\<open>unsafe\<close>, a package of the
  standard library without imports, is loaded, excluded by the filter and not stored, and
  the output has no node statement.
\<close>

theorem root_without_imports_counterexample:
  "provider_of [descriptor ''unsafe'' True []] (buildTags (configure skip_stdlib)) ''unsafe'' ''/src''
     = Inr (descriptor ''unsafe'' True [])
   \<and> allImports skip_stdlib (descriptor ''unsafe'' True []) = []
   \<and> main (Suc 0) skip_stdlib [''unsafe''] (provider_of [descriptor ''unsafe'' True []])
        (Inr ''/src'') (in_order [''unsafe''])
      = Some \<lparr>stdout = [GraphOpen, GraphClose], stderr = [], status = 0\<rparr>"
  by (simp add: main_def allImports_def skip_stdlib_def default_flags_def provider_of_def
      configure_def init_settings_def init_state_def descriptor_def isIgnored_def in_order_def)

text \<open>
  Claim C8, amended. For a root package that the filter does not exclude and whose
  combined import list is empty, the output has exactly one node statement, the one of
  the root with identifier 0, and no edge statement.
\<close>

theorem root_without_imports:
  "root \<notin> ignored (configure fl) \<and> Import (buildTags (configure fl)) root cwd = Inr pkg
   \<and> \<not> isIgnored fl (configure fl) pkg \<and> allImports fl pkg = []
   \<and> order [ImportPath pkg \<mapsto> pkg] = [ImportPath pkg]
   \<longrightarrow> (\<exists>r. main (Suc d) fl [root] Import (Inr cwd) order = Some r
          \<and> stdout r = [GraphOpen] @ (if horizontal fl then [RankdirLR] else [])
                         @ [NodeStmt 0 (ImportPath pkg) (color pkg), GraphClose]
          \<and> filter isNode (stdout r) = [NodeStmt 0 (ImportPath pkg) (color pkg)]
          \<and> filter isEdge (stdout r) = []
          \<and> stderr r = [] \<and> status r = 0)"
proof (intro impI, elim conjE)
  assume h: "root \<notin> ignored (configure fl)" "Import (buildTags (configure fl)) root cwd = Inr pkg"
    "\<not> isIgnored fl (configure fl) pkg" "allImports fl pkg = []"
    and o: "order [ImportPath pkg \<mapsto> pkg] = [ImportPath pkg]"
  have g: "getImports fl pkg = []" using h(4) by (simp add: getImports_def)
  let ?st = "init_state\<lparr>lookups := [root], pkgs := [ImportPath pkg \<mapsto> pkg]\<rparr>"
  have run: "processPackage (Suc d) fl (configure fl) (Import (buildTags (configure fl))) cwd root
               init_state = (Ok, ?st)"
    using h(1,2,3) g by (simp add: init_state_def Let_def)
  have ren: "renderPkgs fl (configure fl) [ImportPath pkg] ?st
     = ([NodeStmt 0 (ImportPath pkg) (color pkg)],
        ?st\<lparr>nextId := 1, ids := [ImportPath pkg \<mapsto> 0]\<rparr>)"
    using h(3) g by (simp add: init_state_def getId_def Let_def)
  have "main (Suc d) fl [root] Import (Inr cwd) order
         = Some \<lparr>stdout = [GraphOpen] @ (if horizontal fl then [RankdirLR] else [])
                         @ [NodeStmt 0 (ImportPath pkg) (color pkg), GraphClose],
                 stderr = [], status = 0\<rparr>"
    unfolding main_def using run ren o by (simp del: processPackage.simps renderPkgs.simps)
  then show "\<exists>r. main (Suc d) fl [root] Import (Inr cwd) order = Some r
          \<and> stdout r = [GraphOpen] @ (if horizontal fl then [RankdirLR] else [])
                         @ [NodeStmt 0 (ImportPath pkg) (color pkg), GraphClose]
          \<and> filter isNode (stdout r) = [NodeStmt 0 (ImportPath pkg) (color pkg)]
          \<and> filter isEdge (stdout r) = []
          \<and> stderr r = [] \<and> status r = 0"
    by simp
qed

text \<open>The root \<^verbatim>\<open>app\<close> without imports, with the default flags.\<close>

theorem root_without_imports_witness:
  "''app'' \<notin> ignored (configure default_flags)
   \<and> provider_of [descriptor ''app'' False []] (buildTags (configure default_flags)) ''app'' ''/src''
       = Inr (descriptor ''app'' False [])
   \<and> \<not> isIgnored default_flags (configure default_flags) (descriptor ''app'' False [])
   \<and> allImports default_flags (descriptor ''app'' False []) = []
   \<and> in_order [''app''] [ImportPath (descriptor ''app'' False []) \<mapsto> descriptor ''app'' False []]
       = [ImportPath (descriptor ''app'' False [])]
   \<and> main (Suc 0) default_flags [''app''] (provider_of [descriptor ''app'' False []]) (Inr ''/src'')
        (in_order [''app''])
       = Some \<lparr>stdout = [GraphOpen, NodeStmt 0 ''app'' ''paleturquoise'', GraphClose],
               stderr = [], status = 0\<rparr>"
proof -
  have h1: "''app'' \<notin> ignored (configure default_flags)"
    by (simp add: default_flags_def configure_def init_settings_def)
  have h2: "provider_of [descriptor ''app'' False []] (buildTags (configure default_flags)) ''app''
      ''/src'' = Inr (descriptor ''app'' False [])"
    by (simp add: provider_of_def descriptor_def)
  have h3: "\<not> isIgnored default_flags (configure default_flags) (descriptor ''app'' False [])"
    by (simp add: default_flags_def configure_def init_settings_def isIgnored_def descriptor_def)
  have h4: "allImports default_flags (descriptor ''app'' False []) = []"
    by (simp add: allImports_def default_flags_def descriptor_def)
  have h5: "in_order [''app''] [ImportPath (descriptor ''app'' False []) \<mapsto> descriptor ''app'' False []]
       = [ImportPath (descriptor ''app'' False [])]"
    by (simp add: in_order_def descriptor_def)
  from root_without_imports [of "''app''" default_flags "provider_of [descriptor ''app'' False []]"
      "''/src''" "descriptor ''app'' False []" "in_order [''app'']" 0] h1 h2 h3 h4 h5
  obtain r where r: "main (Suc 0) default_flags [''app''] (provider_of [descriptor ''app'' False []])
        (Inr ''/src'') (in_order [''app'']) = Some r"
    "stdout r = [GraphOpen] @ (if horizontal default_flags then [RankdirLR] else [])
                         @ [NodeStmt 0 (ImportPath (descriptor ''app'' False []))
                              (color (descriptor ''app'' False [])), GraphClose]"
    "stderr r = []" "status r = 0"
    by blast
  from r(2,3,4) have "r = \<lparr>stdout = [GraphOpen, NodeStmt 0 ''app'' ''paleturquoise'', GraphClose],
               stderr = [], status = 0\<rparr>"
    by (simp add: default_flags_def descriptor_def color_def)
  with r(1) have c: "main (Suc 0) default_flags [''app''] (provider_of [descriptor ''app'' False []])
        (Inr ''/src'') (in_order [''app''])
       = Some \<lparr>stdout = [GraphOpen, NodeStmt 0 ''app'' ''paleturquoise'', GraphClose],
               stderr = [], status = 0\<rparr>"
    by simp
  from h1 h2 h3 h4 h5 c show ?thesis by (intro conjI)
qed

section \<open>Packages of the standard library without \<^verbatim>\<open>-d\<close>\<close>

lemma processPackage_stdlib:
  assumes "pkgName \<notin> ignored cf" "Imp pkgName srcDir = Inr pkg" "\<not> isIgnored fl cf pkg"
    "Goroot pkg" "\<not> delveGoroot fl"
  shows "processPackage (Suc n) fl cf Imp srcDir pkgName s0
          = (Ok, s0\<lparr>lookups := lookups s0 @ [pkgName], pkgs := (pkgs s0)(ImportPath pkg \<mapsto> pkg)\<rparr>)"
  using assms by (simp add: Let_def)

lemma rangeImports_stdlib:
  assumes nd: "\<not> delveGoroot fl"
  shows "\<forall>q\<in>set qs. q \<notin> ignored cf
            \<and> (\<exists>p. Imp q root = Inr p \<and> Goroot p \<and> \<not> isIgnored fl cf p \<and> ImportPath p = q)
     \<Longrightarrow> \<exists>st'. rangeImports (processPackage (Suc d) fl cf Imp root) qs st = (Ok, st')
            \<and> (\<forall>k. pkgs st' k = (if k \<in> set qs \<and> pkgs st k = None
                                  then (case Imp k root of Inr p \<Rightarrow> Some p | Inl e \<Rightarrow> None)
                                  else pkgs st k))"
proof (induction qs arbitrary: st)
  case Nil
  then show ?case by simp
next
  case (Cons q qs)
  from Cons.prems obtain p where q: "q \<notin> ignored cf" "Imp q root = Inr p" "Goroot p"
    "\<not> isIgnored fl cf p" "ImportPath p = q"
    by auto
  from Cons.prems have rest: "\<forall>q\<in>set qs. q \<notin> ignored cf
            \<and> (\<exists>p. Imp q root = Inr p \<and> Goroot p \<and> \<not> isIgnored fl cf p \<and> ImportPath p = q)"
    by simp
  show ?case
  proof (cases "pkgs st q")
    case None
    let ?s1 = "st\<lparr>lookups := lookups st @ [q], pkgs := (pkgs st)(q \<mapsto> p)\<rparr>"
    have c: "processPackage (Suc d) fl cf Imp root q st = (Ok, ?s1)"
      using processPackage_stdlib [where Imp = Imp and srcDir = root, OF q(1,2,4,3) nd, of d st] q(5)
      by simp
    from Cons.IH [OF rest, of ?s1] obtain st' where
      r: "rangeImports (processPackage (Suc d) fl cf Imp root) qs ?s1 = (Ok, st')"
      and s: "\<forall>k. pkgs st' k = (if k \<in> set qs \<and> pkgs ?s1 k = None
                                  then (case Imp k root of Inr p \<Rightarrow> Some p | Inl e \<Rightarrow> None)
                                  else pkgs ?s1 k)"
      by blast
    have "rangeImports (processPackage (Suc d) fl cf Imp root) (q # qs) st = (Ok, st')"
      using None c r by (simp del: processPackage.simps)
    moreover have "\<forall>k. pkgs st' k = (if k \<in> set (q # qs) \<and> pkgs st k = None
                                  then (case Imp k root of Inr p \<Rightarrow> Some p | Inl e \<Rightarrow> None)
                                  else pkgs st k)"
      using s None q(2) by auto
    ultimately show ?thesis by blast
  next
    case (Some y)
    from Cons.IH [OF rest, of st] obtain st' where
      r: "rangeImports (processPackage (Suc d) fl cf Imp root) qs st = (Ok, st')"
      and s: "\<forall>k. pkgs st' k = (if k \<in> set qs \<and> pkgs st k = None
                                  then (case Imp k root of Inr p \<Rightarrow> Some p | Inl e \<Rightarrow> None)
                                  else pkgs st k)"
      by blast
    have "rangeImports (processPackage (Suc d) fl cf Imp root) (q # qs) st = (Ok, st')"
      using Some r by (simp del: processPackage.simps)
    moreover have "\<forall>k. pkgs st' k = (if k \<in> set (q # qs) \<and> pkgs st k = None
                                  then (case Imp k root of Inr p \<Rightarrow> Some p | Inl e \<Rightarrow> None)
                                  else pkgs st k)"
      using s Some by auto
    ultimately show ?thesis by blast
  qed
qed

text \<open>The statements of the output of a run whose loop visits the keys of the store.\<close>

lemma main_output:
  assumes run: "processPackage depth fl (configure fl) (Import (buildTags (configure fl))) cwd root
                  init_state = (Ok, st)"
    and all: "dom (pkgs st) \<subseteq> set (order (pkgs st))"
  shows "\<exists>r idf. main depth fl [root] Import (Inr cwd) order = Some r
           \<and> inj_on idf (dom (pkgs st))
           \<and> (\<forall>a l c. NodeStmt a l c \<in> set (stdout r)
                 \<longleftrightarrow> (\<exists>p. pkgs st l = Some p \<and> a = idf l \<and> c = color p))
           \<and> (\<forall>a b. EdgeStmt a b \<in> set (stdout r)
                 \<longleftrightarrow> (\<exists>k p q. pkgs st k = Some p \<and> \<not> (Goroot p \<and> \<not> delveGoroot fl)
                        \<and> q \<in> set (getImports fl p) \<and> q \<in> dom (pkgs st) \<and> a = idf k \<and> b = idf q))"
proof -
  let ?cf = "configure fl" and ?m = "pkgs st" and ?ks = "order (pkgs st)"
  have sf: "store_filtered fl ?cf ?m" using main_store(2) [where Import = Import, OF run] .
  from main_char [where Import = Import and order = order, OF run] obtain idf N where
    inj: "inj_on idf N" and men: "\<forall>k\<in>set ?ks. mentioned fl ?cf ?m k \<subseteq> N" and
    m: "main depth fl [root] Import (Inr cwd) order
               = Some \<lparr>stdout = [GraphOpen] @ (if horizontal fl then [RankdirLR] else [])
                          @ concat (map (block fl ?cf ?m idf) ?ks) @ [GraphClose],
                       stderr = [], status = 0\<rparr>"
    by blast
  let ?out = "concat (map (block fl ?cf ?m idf) ?ks)"
  define r where "r = \<lparr>stdout = [GraphOpen] @ (if horizontal fl then [RankdirLR] else [])
                          @ ?out @ [GraphClose], stderr = [], status = 0\<rparr>"
  have so: "s \<in> set (stdout r) \<longleftrightarrow>
      s = GraphOpen \<or> (horizontal fl \<and> s = RankdirLR) \<or> s \<in> set ?out \<or> s = GraphClose" for s
    unfolding r_def by (simp only: run.simps stdout_frame)
  have "dom ?m \<subseteq> N"
  proof
    fix k assume k: "k \<in> dom ?m"
    then obtain p where "?m k = Some p" by auto
    then have "k \<in> mentioned fl ?cf ?m k" by (rule mentioned_self)
    moreover have "k \<in> set ?ks" using all k by auto
    ultimately show "k \<in> N" using men by blast
  qed
  then have inj': "inj_on idf (dom ?m)" using inj by (rule inj_on_subset [rotated])
  have ni: "\<not> isIgnored fl ?cf p" if "?m k = Some p" for k p
    using sf that by (auto simp: store_filtered_def)
  have kp: "kept fl ?cf ?m q \<longleftrightarrow> q \<in> dom ?m" for q
    using ni by (auto simp: kept_iff)
  have nodes: "NodeStmt a l c \<in> set (stdout r) \<longleftrightarrow> (\<exists>p. ?m l = Some p \<and> a = idf l \<and> c = color p)"
    for a l c
  proof
    assume "NodeStmt a l c \<in> set (stdout r)"
    then have "NodeStmt a l c \<in> set ?out" by (simp add: so)
    then show "\<exists>p. ?m l = Some p \<and> a = idf l \<and> c = color p" by (auto simp: node_in_block)
  next
    assume "\<exists>p. ?m l = Some p \<and> a = idf l \<and> c = color p"
    then obtain p where p: "?m l = Some p" "a = idf l" "c = color p" by blast
    then have "l \<in> set ?ks" using all by auto
    moreover have "NodeStmt a l c \<in> set (block fl ?cf ?m idf l)"
      using p ni [OF p(1)] by (simp add: node_in_block)
    ultimately have "NodeStmt a l c \<in> set ?out" by (rule block_mem)
    then show "NodeStmt a l c \<in> set (stdout r)" by (simp add: so)
  qed
  have edges: "EdgeStmt a b \<in> set (stdout r)
      \<longleftrightarrow> (\<exists>k p q. ?m k = Some p \<and> \<not> (Goroot p \<and> \<not> delveGoroot fl)
                        \<and> q \<in> set (getImports fl p) \<and> q \<in> dom ?m \<and> a = idf k \<and> b = idf q)"
    for a b
  proof
    assume "EdgeStmt a b \<in> set (stdout r)"
    then have "EdgeStmt a b \<in> set ?out" by (simp add: so)
    then obtain k p q where k: "?m k = Some p" "a = idf k" "q \<in> set (edge_targets fl ?cf ?m p)"
      "b = idf q"
      by (auto simp: edge_in_block)
    from k(3) have "\<not> (Goroot p \<and> \<not> delveGoroot fl)" "q \<in> set (getImports fl p)" "q \<in> dom ?m"
      using kp by (auto simp: edge_targets_def split: if_splits)
    with k show "\<exists>k p q. ?m k = Some p \<and> \<not> (Goroot p \<and> \<not> delveGoroot fl)
                        \<and> q \<in> set (getImports fl p) \<and> q \<in> dom ?m \<and> a = idf k \<and> b = idf q"
      by blast
  next
    assume "\<exists>k p q. ?m k = Some p \<and> \<not> (Goroot p \<and> \<not> delveGoroot fl)
                        \<and> q \<in> set (getImports fl p) \<and> q \<in> dom ?m \<and> a = idf k \<and> b = idf q"
    then obtain k p q where k: "?m k = Some p" "\<not> (Goroot p \<and> \<not> delveGoroot fl)"
      "q \<in> set (getImports fl p)" "q \<in> dom ?m" "a = idf k" "b = idf q"
      by blast
    then have "q \<in> set (edge_targets fl ?cf ?m p)" using kp by (auto simp: edge_targets_def)
    then have "EdgeStmt a b \<in> set (block fl ?cf ?m idf k)"
      using k(1,5,6) ni [OF k(1)] by (auto simp: edge_in_block)
    moreover have "k \<in> set ?ks" using all k(1) by auto
    ultimately have "EdgeStmt a b \<in> set ?out" by (rule block_mem [rotated])
    then show "EdgeStmt a b \<in> set (stdout r)" by (simp add: so)
  qed
  have "main depth fl [root] Import (Inr cwd) order = Some r" using m by (simp add: r_def)
  with inj' nodes edges show ?thesis by blast
qed

text \<open>
  Claim C5, as stated, fails in its last part. With the default flags the root \<^verbatim>\<open>fmt\<close>,
  itself of the standard library and importing only \<^verbatim>\<open>os\<close>, is stored as a leaf: \<^verbatim>\<open>os\<close>
  is never resolved and gets no node. With \<^verbatim>\<open>-s\<close> the root \<^verbatim>\<open>app\<close> importing only
  \<^verbatim>\<open>fmt\<close> and \<^verbatim>\<open>os\<close> gets the only node: the two are loaded, excluded and not stored.
\<close>

theorem stdlib_is_leaf_counterexample:
  "provider_of stdlib_root (buildTags (configure default_flags)) ''fmt'' ''/src''
     = Inr (descriptor ''fmt'' True [''os''])
   \<and> getImports default_flags (descriptor ''fmt'' True [''os'']) = [''os'']
   \<and> provider_of stdlib_root (buildTags (configure default_flags)) ''os'' ''/src''
     = Inr (descriptor ''os'' True [])
   \<and> \<not> delveGoroot default_flags
   \<and> main (Suc (Suc 0)) default_flags [''fmt''] (provider_of stdlib_root) (Inr ''/src'')
        (in_order [''fmt'', ''os''])
      = Some \<lparr>stdout = [GraphOpen, NodeStmt 0 ''fmt'' ''palegreen'', GraphClose],
              stderr = [], status = 0\<rparr>
   \<and> \<not> delveGoroot skip_stdlib
   \<and> main (Suc (Suc 0)) skip_stdlib [''app''] (provider_of app_on_stdlib) (Inr ''/src'')
        (in_order [''app'', ''fmt'', ''os''])
      = Some \<lparr>stdout = [GraphOpen, NodeStmt 0 ''app'' ''paleturquoise'', GraphClose],
              stderr = [], status = 0\<rparr>"
  by (simp add: main_def getImports_def allImports_def skip_stdlib_def default_flags_def
      provider_of_def configure_def init_settings_def init_state_def descriptor_def isIgnored_def
      in_order_def stdlib_root_def app_on_stdlib_def getId_def color_def)

text \<open>
  Claim C5, amended. Without \<^verbatim>\<open>-d\<close>, a package of the standard library that the
  provider returns and the filter does not exclude is stored, and the call returns at
  once: the provider has been called for this path only. In the output of a run the
  node of a stored package of the standard library is printed and no edge starts at it.
  Hence, for a root outside the standard library that the filter does not exclude and
  whose imports are all packages of the standard library, each returned by the provider
  under the path it was asked for and not excluded, the resolution returns \<^verbatim>\<open>nil\<close>
  with exactly the root and its imports stored, and the output has the node of the root,
  a node for each import and an edge from the root to it, and no edge that starts
  elsewhere.
\<close>

theorem stdlib_is_leaf:
  "(pkgName \<notin> ignored cf \<and> Imp pkgName srcDir = Inr pkg \<and> \<not> isIgnored fl cf pkg
      \<and> Goroot pkg \<and> \<not> delveGoroot fl
      \<longrightarrow> processPackage (Suc n) fl cf Imp srcDir pkgName s0
            = (Ok, s0\<lparr>lookups := lookups s0 @ [pkgName],
                       pkgs := (pkgs s0)(ImportPath pkg \<mapsto> pkg)\<rparr>))
   \<and> (\<not> delveGoroot fl
       \<and> processPackage depth fl (configure fl) (Import (buildTags (configure fl))) cwd root init_state
           = (Ok, st)
       \<and> dom (pkgs st) \<subseteq> set (order (pkgs st))
       \<longrightarrow> (\<exists>r idf. main depth fl [root] Import (Inr cwd) order = Some r
              \<and> inj_on idf (dom (pkgs st))
              \<and> (\<forall>l p. pkgs st l = Some p \<and> Goroot p
                    \<longrightarrow> NodeStmt (idf l) l (color p) \<in> set (stdout r)
                        \<and> (\<forall>b. EdgeStmt (idf l) b \<notin> set (stdout r)))))
   \<and> (\<not> delveGoroot fl \<and> root \<notin> ignored (configure fl)
       \<and> Import (buildTags (configure fl)) root cwd = Inr rp
       \<and> \<not> isIgnored fl (configure fl) rp \<and> \<not> Goroot rp
       \<and> (\<forall>q\<in>set (getImports fl rp). q \<notin> ignored (configure fl)
              \<and> (\<exists>p. Import (buildTags (configure fl)) q cwd = Inr p \<and> Goroot p
                      \<and> \<not> isIgnored fl (configure fl) p \<and> ImportPath p = q))
       \<and> processPackage (Suc (Suc d)) fl (configure fl) (Import (buildTags (configure fl))) cwd root
            init_state = (r1, st1)
       \<and> dom (pkgs st1) \<subseteq> set (order (pkgs st1))
       \<longrightarrow> r1 = Ok \<and> dom (pkgs st1) = insert (ImportPath rp) (set (getImports fl rp))
           \<and> (\<exists>r idf. main (Suc (Suc d)) fl [root] Import (Inr cwd) order = Some r
                 \<and> inj_on idf (dom (pkgs st1))
                 \<and> NodeStmt (idf (ImportPath rp)) (ImportPath rp) (color rp) \<in> set (stdout r)
                 \<and> (\<forall>q\<in>set (getImports fl rp).
                        NodeStmt (idf q) q ''palegreen'' \<in> set (stdout r)
                        \<and> EdgeStmt (idf (ImportPath rp)) (idf q) \<in> set (stdout r))
                 \<and> (\<forall>a b. EdgeStmt a b \<in> set (stdout r) \<longrightarrow> a = idf (ImportPath rp))))"
proof (intro conjI)
  show "pkgName \<notin> ignored cf \<and> Imp pkgName srcDir = Inr pkg \<and> \<not> isIgnored fl cf pkg
      \<and> Goroot pkg \<and> \<not> delveGoroot fl
      \<longrightarrow> processPackage (Suc n) fl cf Imp srcDir pkgName s0
            = (Ok, s0\<lparr>lookups := lookups s0 @ [pkgName],
                       pkgs := (pkgs s0)(ImportPath pkg \<mapsto> pkg)\<rparr>)"
    by (simp add: Let_def)
next
  show "\<not> delveGoroot fl
       \<and> processPackage depth fl (configure fl) (Import (buildTags (configure fl))) cwd root init_state
           = (Ok, st)
       \<and> dom (pkgs st) \<subseteq> set (order (pkgs st))
       \<longrightarrow> (\<exists>r idf. main depth fl [root] Import (Inr cwd) order = Some r
              \<and> inj_on idf (dom (pkgs st))
              \<and> (\<forall>l p. pkgs st l = Some p \<and> Goroot p
                    \<longrightarrow> NodeStmt (idf l) l (color p) \<in> set (stdout r)
                        \<and> (\<forall>b. EdgeStmt (idf l) b \<notin> set (stdout r))))"
  proof (intro impI, elim conjE)
    assume nd: "\<not> delveGoroot fl"
      and run: "processPackage depth fl (configure fl) (Import (buildTags (configure fl))) cwd root
                  init_state = (Ok, st)"
      and all: "dom (pkgs st) \<subseteq> set (order (pkgs st))"
    from main_output [where Import = Import and order = order, OF run all]
    obtain r idf where m: "main depth fl [root] Import (Inr cwd) order = Some r"
      and inj: "inj_on idf (dom (pkgs st))"
      and nodes: "\<And>a l c. NodeStmt a l c \<in> set (stdout r)
                 \<longleftrightarrow> (\<exists>p. pkgs st l = Some p \<and> a = idf l \<and> c = color p)"
      and edges: "\<And>a b. EdgeStmt a b \<in> set (stdout r)
                 \<longleftrightarrow> (\<exists>k p q. pkgs st k = Some p \<and> \<not> (Goroot p \<and> \<not> delveGoroot fl)
                        \<and> q \<in> set (getImports fl p) \<and> q \<in> dom (pkgs st) \<and> a = idf k \<and> b = idf q)"
      by blast
    have "NodeStmt (idf l) l (color p) \<in> set (stdout r) \<and> (\<forall>b. EdgeStmt (idf l) b \<notin> set (stdout r))"
      if lp: "pkgs st l = Some p" "Goroot p" for l p
    proof
      show "NodeStmt (idf l) l (color p) \<in> set (stdout r)" using lp(1) by (auto simp: nodes)
      show "\<forall>b. EdgeStmt (idf l) b \<notin> set (stdout r)"
      proof (intro allI notI)
        fix b assume "EdgeStmt (idf l) b \<in> set (stdout r)"
        then obtain k p' where k: "pkgs st k = Some p'" "\<not> (Goroot p' \<and> \<not> delveGoroot fl)"
          "idf l = idf k"
          by (auto simp: edges)
        from inj k(1,3) lp(1) have "l = k" by (auto simp: inj_on_def)
        with k(1,2) lp nd show False by simp
      qed
    qed
    with m inj show "\<exists>r idf. main depth fl [root] Import (Inr cwd) order = Some r
              \<and> inj_on idf (dom (pkgs st))
              \<and> (\<forall>l p. pkgs st l = Some p \<and> Goroot p
                    \<longrightarrow> NodeStmt (idf l) l (color p) \<in> set (stdout r)
                        \<and> (\<forall>b. EdgeStmt (idf l) b \<notin> set (stdout r)))"
      by blast
  qed
next
  let ?cf = "configure fl" and ?Imp = "Import (buildTags (configure fl))"
  show "\<not> delveGoroot fl \<and> root \<notin> ignored ?cf
       \<and> ?Imp root cwd = Inr rp
       \<and> \<not> isIgnored fl ?cf rp \<and> \<not> Goroot rp
       \<and> (\<forall>q\<in>set (getImports fl rp). q \<notin> ignored ?cf
              \<and> (\<exists>p. ?Imp q cwd = Inr p \<and> Goroot p
                      \<and> \<not> isIgnored fl ?cf p \<and> ImportPath p = q))
       \<and> processPackage (Suc (Suc d)) fl ?cf ?Imp cwd root init_state = (r1, st1)
       \<and> dom (pkgs st1) \<subseteq> set (order (pkgs st1))
       \<longrightarrow> r1 = Ok \<and> dom (pkgs st1) = insert (ImportPath rp) (set (getImports fl rp))
           \<and> (\<exists>r idf. main (Suc (Suc d)) fl [root] Import (Inr cwd) order = Some r
                 \<and> inj_on idf (dom (pkgs st1))
                 \<and> NodeStmt (idf (ImportPath rp)) (ImportPath rp) (color rp) \<in> set (stdout r)
                 \<and> (\<forall>q\<in>set (getImports fl rp).
                        NodeStmt (idf q) q ''palegreen'' \<in> set (stdout r)
                        \<and> EdgeStmt (idf (ImportPath rp)) (idf q) \<in> set (stdout r))
                 \<and> (\<forall>a b. EdgeStmt a b \<in> set (stdout r) \<longrightarrow> a = idf (ImportPath rp)))"
  proof (intro impI, elim conjE)
    assume nd: "\<not> delveGoroot fl" and h: "root \<notin> ignored ?cf" "?Imp root cwd = Inr rp"
      "\<not> isIgnored fl ?cf rp" "\<not> Goroot rp"
      and imps: "\<forall>q\<in>set (getImports fl rp). q \<notin> ignored ?cf
              \<and> (\<exists>p. ?Imp q cwd = Inr p \<and> Goroot p \<and> \<not> isIgnored fl ?cf p \<and> ImportPath p = q)"
      and run: "processPackage (Suc (Suc d)) fl ?cf ?Imp cwd root init_state = (r1, st1)"
      and all: "dom (pkgs st1) \<subseteq> set (order (pkgs st1))"
    let ?s2 = "init_state\<lparr>lookups := lookups init_state @ [root],
                 pkgs := (pkgs init_state)(ImportPath rp \<mapsto> rp)\<rparr>"
    from rangeImports_stdlib [where Imp = ?Imp and root = cwd and d = d and st = ?s2, OF nd imps]
    obtain s3 where
      r3: "rangeImports (processPackage (Suc d) fl ?cf ?Imp cwd) (getImports fl rp) ?s2 = (Ok, s3)"
      and p3: "\<And>k. pkgs s3 k = (if k \<in> set (getImports fl rp) \<and> pkgs ?s2 k = None
                                  then (case ?Imp k cwd of Inr p \<Rightarrow> Some p | Inl e \<Rightarrow> None)
                                  else pkgs ?s2 k)"
      by blast
    have "processPackage (Suc (Suc d)) fl ?cf ?Imp cwd root init_state = (Ok, s3)"
      using h r3 by (simp add: Let_def del: processPackage.simps(2)
          add: processPackage.simps(2) [of "Suc d"])
    with run have r1: "r1 = Ok" and s3: "s3 = st1" by simp_all
    have self: "ImportPath rp \<notin> set (getImports fl rp)" by (simp add: getImports_set)
    have proot: "pkgs st1 (ImportPath rp) = Some rp"
      using p3 [of "ImportPath rp"] s3 by simp
    have pimp: "\<exists>p. pkgs st1 q = Some p \<and> Goroot p" if q: "q \<in> set (getImports fl rp)" for q
    proof -
      from imps q obtain p where p: "?Imp q cwd = Inr p" "Goroot p" by blast
      have "q \<noteq> ImportPath rp" using q self by auto
      then have "pkgs st1 q = Some p" using p3 [of q] s3 q p(1) by (simp add: init_state_def)
      with p(2) show ?thesis by blast
    qed
    have pnone: "pkgs st1 k = None" if "k \<noteq> ImportPath rp" "k \<notin> set (getImports fl rp)" for k
      using p3 [of k] s3 that by (simp add: init_state_def)
    have dm: "dom (pkgs st1) = insert (ImportPath rp) (set (getImports fl rp))"
    proof (intro set_eqI iffI)
      fix k assume a: "k \<in> dom (pkgs st1)"
      show "k \<in> insert (ImportPath rp) (set (getImports fl rp))"
      proof (rule ccontr)
        assume "k \<notin> insert (ImportPath rp) (set (getImports fl rp))"
        then have "pkgs st1 k = None" using pnone by simp
        with a show False by auto
      qed
    next
      fix k assume "k \<in> insert (ImportPath rp) (set (getImports fl rp))"
      then show "k \<in> dom (pkgs st1)" using proot pimp by auto
    qed
    have run': "processPackage (Suc (Suc d)) fl ?cf ?Imp cwd root init_state = (Ok, st1)"
      using run r1 by simp
    from main_output [where Import = Import and order = order, OF run' all]
    obtain r idf where m: "main (Suc (Suc d)) fl [root] Import (Inr cwd) order = Some r"
      and inj: "inj_on idf (dom (pkgs st1))"
      and nodes: "\<And>a l c. NodeStmt a l c \<in> set (stdout r)
                 \<longleftrightarrow> (\<exists>p. pkgs st1 l = Some p \<and> a = idf l \<and> c = color p)"
      and edges: "\<And>a b. EdgeStmt a b \<in> set (stdout r)
                 \<longleftrightarrow> (\<exists>k p q. pkgs st1 k = Some p \<and> \<not> (Goroot p \<and> \<not> delveGoroot fl)
                        \<and> q \<in> set (getImports fl p) \<and> q \<in> dom (pkgs st1) \<and> a = idf k \<and> b = idf q)"
      by blast
    have n0: "NodeStmt (idf (ImportPath rp)) (ImportPath rp) (color rp) \<in> set (stdout r)"
      using proot by (auto simp: nodes)
    have n1: "NodeStmt (idf q) q ''palegreen'' \<in> set (stdout r)
              \<and> EdgeStmt (idf (ImportPath rp)) (idf q) \<in> set (stdout r)"
      if q: "q \<in> set (getImports fl rp)" for q
    proof
      from pimp [OF q] obtain p where p: "pkgs st1 q = Some p" "Goroot p" by blast
      then have "color p = ''palegreen''" by (simp add: color_def)
      with p(1) show "NodeStmt (idf q) q ''palegreen'' \<in> set (stdout r)" by (auto simp: nodes)
      have "q \<in> dom (pkgs st1)" using p(1) by auto
      with proot h(4) q show "EdgeStmt (idf (ImportPath rp)) (idf q) \<in> set (stdout r)"
        unfolding edges by blast
    qed
    have e: "a = idf (ImportPath rp)" if "EdgeStmt a b \<in> set (stdout r)" for a b
    proof -
      from that obtain k p where k: "pkgs st1 k = Some p" "\<not> (Goroot p \<and> \<not> delveGoroot fl)"
        "a = idf k"
        by (auto simp: edges)
      have "k = ImportPath rp"
      proof (rule ccontr)
        assume ne: "k \<noteq> ImportPath rp"
        with k(1) dm have "k \<in> set (getImports fl rp)" by auto
        from pimp [OF this] k(1) have "Goroot p" by auto
        with k(2) nd show False by simp
      qed
      with k(3) show ?thesis by simp
    qed
    from m inj n0 n1 e
    have "\<exists>r idf. main (Suc (Suc d)) fl [root] Import (Inr cwd) order = Some r
                 \<and> inj_on idf (dom (pkgs st1))
                 \<and> NodeStmt (idf (ImportPath rp)) (ImportPath rp) (color rp) \<in> set (stdout r)
                 \<and> (\<forall>q\<in>set (getImports fl rp).
                        NodeStmt (idf q) q ''palegreen'' \<in> set (stdout r)
                        \<and> EdgeStmt (idf (ImportPath rp)) (idf q) \<in> set (stdout r))
                 \<and> (\<forall>a b. EdgeStmt a b \<in> set (stdout r) \<longrightarrow> a = idf (ImportPath rp))"
      by blast
    with r1 dm show "r1 = Ok \<and> dom (pkgs st1) = insert (ImportPath rp) (set (getImports fl rp))
           \<and> (\<exists>r idf. main (Suc (Suc d)) fl [root] Import (Inr cwd) order = Some r
                 \<and> inj_on idf (dom (pkgs st1))
                 \<and> NodeStmt (idf (ImportPath rp)) (ImportPath rp) (color rp) \<in> set (stdout r)
                 \<and> (\<forall>q\<in>set (getImports fl rp).
                        NodeStmt (idf q) q ''palegreen'' \<in> set (stdout r)
                        \<and> EdgeStmt (idf (ImportPath rp)) (idf q) \<in> set (stdout r))
                 \<and> (\<forall>a b. EdgeStmt a b \<in> set (stdout r) \<longrightarrow> a = idf (ImportPath rp)))"
      by blast
  qed
qed

text \<open>
  The root \<^verbatim>\<open>app\<close> importing \<^verbatim>\<open>fmt\<close> and \<^verbatim>\<open>os\<close>: the import \<^verbatim>\<open>syscall\<close> of \<^verbatim>\<open>os\<close>,
  for which the provider would fail, is never asked for.
\<close>

lemma app_on_stdlib_resolved:
  "processPackage (Suc (Suc d)) default_flags (configure default_flags)
         (provider_of app_on_stdlib (buildTags (configure default_flags))) ''/src'' ''app'' init_state
       = (Ok, resolved_app_on_stdlib)"
  by (simp add: getImports_def allImports_def app_on_stdlib_def default_flags_def provider_of_def
     configure_def init_settings_def init_state_def descriptor_def isIgnored_def
     resolved_app_on_stdlib_def)

lemma app_on_stdlib_output:
  "main (Suc (Suc d)) default_flags [''app''] (provider_of app_on_stdlib) (Inr ''/src'')
         (in_order [''app'', ''fmt'', ''os''])
       = Some \<lparr>stdout = [GraphOpen, NodeStmt 0 ''app'' ''paleturquoise'', EdgeStmt 0 1, EdgeStmt 0 2,
                 NodeStmt 1 ''fmt'' ''palegreen'', NodeStmt 2 ''os'' ''palegreen'', GraphClose],
               stderr = [], status = 0\<rparr>"
  by (simp add: main_def getImports_def allImports_def app_on_stdlib_def default_flags_def
     provider_of_def configure_def init_settings_def init_state_def descriptor_def isIgnored_def
     getId_def color_def in_order_def)

theorem stdlib_is_leaf_witness:
  "''os'' \<notin> ignored (configure default_flags)
   \<and> provider_of app_on_stdlib [] ''os'' ''/src'' = Inr (descriptor ''os'' True [''syscall''])
   \<and> \<not> isIgnored default_flags (configure default_flags) (descriptor ''os'' True [''syscall''])
   \<and> Goroot (descriptor ''os'' True [''syscall'']) \<and> \<not> delveGoroot default_flags
   \<and> processPackage (Suc 0) default_flags (configure default_flags) (provider_of app_on_stdlib [])
        ''/src'' ''os'' init_state
       = (Ok, init_state\<lparr>lookups := lookups init_state @ [''os''],
                 pkgs := (pkgs init_state)(ImportPath (descriptor ''os'' True [''syscall''])
                            \<mapsto> descriptor ''os'' True [''syscall''])\<rparr>)
   \<and> ''app'' \<notin> ignored (configure default_flags)
   \<and> \<not> isIgnored default_flags (configure default_flags) (descriptor ''app'' False [''fmt'', ''os''])
   \<and> \<not> Goroot (descriptor ''app'' False [''fmt'', ''os''])
   \<and> getImports default_flags (descriptor ''app'' False [''fmt'', ''os'']) = [''fmt'', ''os'']
   \<and> processPackage (Suc (Suc 0)) default_flags (configure default_flags)
        (provider_of app_on_stdlib (buildTags (configure default_flags))) ''/src'' ''app'' init_state
       = (Ok, resolved_app_on_stdlib)
   \<and> dom (pkgs resolved_app_on_stdlib)
       \<subseteq> set (in_order [''app'', ''fmt'', ''os''] (pkgs resolved_app_on_stdlib))
   \<and> dom (pkgs resolved_app_on_stdlib)
       = insert (ImportPath (descriptor ''app'' False [''fmt'', ''os'']))
           (set (getImports default_flags (descriptor ''app'' False [''fmt'', ''os''])))
   \<and> main (Suc (Suc 0)) default_flags [''app''] (provider_of app_on_stdlib) (Inr ''/src'')
         (in_order [''app'', ''fmt'', ''os''])
       = Some \<lparr>stdout = [GraphOpen, NodeStmt 0 ''app'' ''paleturquoise'', EdgeStmt 0 1, EdgeStmt 0 2,
                 NodeStmt 1 ''fmt'' ''palegreen'', NodeStmt 2 ''os'' ''palegreen'', GraphClose],
               stderr = [], status = 0\<rparr>"
proof -
  let ?cf = "configure default_flags"
  let ?app = "descriptor ''app'' False [''fmt'', ''os'']"
  let ?os = "descriptor ''os'' True [''syscall'']"
  have a1: "''os'' \<notin> ignored ?cf" "''app'' \<notin> ignored ?cf"
    by (simp_all add: default_flags_def configure_def init_settings_def)
  have a2: "provider_of app_on_stdlib tags ''os'' ''/src'' = Inr ?os" for tags
    by (simp add: provider_of_def app_on_stdlib_def descriptor_def)
  have a3: "\<not> isIgnored default_flags ?cf ?os" "\<not> isIgnored default_flags ?cf ?app"
    by (simp_all add: default_flags_def configure_def init_settings_def isIgnored_def descriptor_def)
  have a4: "Goroot ?os" "\<not> Goroot ?app" by (simp_all add: descriptor_def)
  have a5: "\<not> delveGoroot default_flags" by (simp add: default_flags_def)
  have b1: "provider_of app_on_stdlib (buildTags ?cf) ''app'' ''/src'' = Inr ?app"
    by (simp add: provider_of_def app_on_stdlib_def descriptor_def)
  have b2: "getImports default_flags ?app = [''fmt'', ''os'']"
    by (simp add: getImports_def allImports_def default_flags_def descriptor_def)
  have b3: "\<forall>q\<in>set (getImports default_flags ?app). q \<notin> ignored ?cf
              \<and> (\<exists>p. provider_of app_on_stdlib (buildTags ?cf) q ''/src'' = Inr p \<and> Goroot p
                      \<and> \<not> isIgnored default_flags ?cf p \<and> ImportPath p = q)"
    unfolding b2
    by (simp add: provider_of_def app_on_stdlib_def descriptor_def default_flags_def configure_def
        init_settings_def isIgnored_def)
  have b4: "dom (pkgs resolved_app_on_stdlib)
       \<subseteq> set (in_order [''app'', ''fmt'', ''os''] (pkgs resolved_app_on_stdlib))"
    by (simp add: resolved_app_on_stdlib_def in_order_def)
  note t = stdlib_is_leaf [where pkgName = "''os''" and cf = ?cf
      and Imp = "provider_of app_on_stdlib []" and srcDir = "''/src''" and pkg = ?os
      and fl = default_flags and n = 0 and ?s0.0 = init_state and depth = "Suc (Suc 0)"
      and Import = "provider_of app_on_stdlib" and cwd = "''/src''" and root = "''app''"
      and st = resolved_app_on_stdlib and order = "in_order [''app'', ''fmt'', ''os'']"
      and rp = ?app and d = 0 and ?r1.0 = Ok and ?st1.0 = resolved_app_on_stdlib]
  from t a1(1) a2 a3(1) a4(1) a5
  have c1: "processPackage (Suc 0) default_flags ?cf (provider_of app_on_stdlib [])
        ''/src'' ''os'' init_state
       = (Ok, init_state\<lparr>lookups := lookups init_state @ [''os''],
                 pkgs := (pkgs init_state)(ImportPath ?os \<mapsto> ?os)\<rparr>)"
    by blast
  from t a5 a1(2) b1 a3(2) a4(2) b3 app_on_stdlib_resolved [of 0] b4
  have c2: "dom (pkgs resolved_app_on_stdlib)
       = insert (ImportPath ?app) (set (getImports default_flags ?app))"
    by blast
  from a1(1) a2 [of "[]"] a3(1) a4(1) a5 c1 a1(2) a3(2) a4(2) b2 app_on_stdlib_resolved [of 0] b4 c2
    app_on_stdlib_output [of 0]
  show ?thesis by (intro conjI)
qed

section \<open>Resolving a path again\<close>

text \<open>
  The loop over the imports passes over an import that is a key of the store. With a
  canonical provider the keys of the store are the paths that were asked for, and in a
  run every key of the store has been handed to the provider exactly once.
\<close>

lemma rangeImports_stored:
  "set imps \<subseteq> dom (pkgs st) \<Longrightarrow> rangeImports rec imps st = (Ok, st)"
  by (induction imps) auto

lemma looked_up_once_lookup:
  assumes inv: "looked_up_once fl cf Imp root s" and nd: "name \<notin> dom (pkgs s)"
    and ns: "\<not> storable fl cf Imp root name"
  shows "looked_up_once fl cf Imp root (s\<lparr>lookups := lookups s @ [name]\<rparr>)"
  using assms by (auto simp: looked_up_once_def)

lemma looked_up_once_store:
  assumes inv: "looked_up_once fl cf Imp root s" and nd: "name \<notin> dom (pkgs s)"
    and st: "storable fl cf Imp root name"
  shows "looked_up_once fl cf Imp root
           (s\<lparr>lookups := lookups s @ [name], pkgs := (pkgs s)(name \<mapsto> pkg)\<rparr>)"
proof -
  have "name \<notin> set (lookups s)" using inv nd st by (auto simp: looked_up_once_def)
  then have "count_list (lookups s) name = 0" by (simp add: count_list_0_iff)
  then show ?thesis using inv nd by (auto simp: looked_up_once_def)
qed

lemma rangeImports_looked_up_once:
  assumes step: "\<And>q s r s1. looked_up_once fl cf Imp root s \<Longrightarrow> q \<notin> dom (pkgs s)
                   \<Longrightarrow> rec q s = (r, s1) \<Longrightarrow> looked_up_once fl cf Imp root s1"
  shows "looked_up_once fl cf Imp root st \<Longrightarrow> rangeImports rec qs st = (r, st')
           \<Longrightarrow> looked_up_once fl cf Imp root st'"
proof (induction qs arbitrary: st)
  case Nil
  then show ?case by simp
next
  case (Cons q qs)
  show ?case
  proof (cases "pkgs st q")
    case (Some y)
    with Cons.prems have "rangeImports rec qs st = (r, st')" by simp
    from Cons.IH [OF Cons.prems(1) this] show ?thesis .
  next
    case None
    then have nd: "q \<notin> dom (pkgs st)" by auto
    obtain r1 s1 where c: "rec q st = (r1, s1)" by (cases "rec q st")
    have i1: "looked_up_once fl cf Imp root s1" using step [OF Cons.prems(1) nd c] .
    show ?thesis
    proof (cases r1)
      case Ok
      with None c Cons.prems(2) have "rangeImports rec qs s1 = (r, st')" by simp
      from Cons.IH [OF i1 this] show ?thesis .
    qed (use None c Cons.prems(2) i1 in auto)
  qed
qed

lemma processPackage_looked_up_once:
  assumes can: "canonical Imp root"
  shows "looked_up_once fl cf Imp root st \<Longrightarrow> name \<notin> dom (pkgs st)
           \<Longrightarrow> processPackage n fl cf Imp root name st = (r, st')
           \<Longrightarrow> looked_up_once fl cf Imp root st'"
proof (induction n arbitrary: name st r st')
  case 0
  then show ?case by simp
next
  case (Suc n)
  show ?case
  proof (cases "name \<in> ignored cf")
    case True
    with Suc.prems show ?thesis by simp
  next
    case False
    let ?s1 = "st\<lparr>lookups := lookups st @ [name]\<rparr>"
    show ?thesis
    proof (cases "Imp name root")
      case (Inl e)
      then have "\<not> storable fl cf Imp root name" by (simp add: storable_def)
      from looked_up_once_lookup [OF Suc.prems(1,2) this] False Inl Suc.prems(3)
      show ?thesis by auto
    next
      case (Inr pkg)
      show ?thesis
      proof (cases "isIgnored fl cf pkg")
        case True
        with Inr have "\<not> storable fl cf Imp root name" by (simp add: storable_def)
        from looked_up_once_lookup [OF Suc.prems(1,2) this] False Inr True Suc.prems(3)
        show ?thesis by auto
      next
        case ni: False
        have ip: "ImportPath pkg = name" using can Inr by (simp add: canonical_def)
        let ?s2 = "st\<lparr>lookups := lookups st @ [name], pkgs := (pkgs st)(name \<mapsto> pkg)\<rparr>"
        have "storable fl cf Imp root name" using Inr ni by (auto simp: storable_def)
        from looked_up_once_store [OF Suc.prems(1,2) this]
        have i2: "looked_up_once fl cf Imp root ?s2" .
        show ?thesis
        proof (cases "Goroot pkg \<and> \<not> delveGoroot fl")
          case True
          with False Inr ni Suc.prems(3) ip have "st' = ?s2" by (auto simp: Let_def)
          with i2 show ?thesis by simp
        next
          case leaf: False
          with False Inr ni Suc.prems(3) ip
          have r: "rangeImports (processPackage n fl cf Imp root) (getImports fl pkg) ?s2 = (r, st')"
            by (auto simp: Let_def)
          show ?thesis
            by (rule rangeImports_looked_up_once [where rec = "processPackage n fl cf Imp root",
                  OF _ i2 r]) (rule Suc.IH)
        qed
      qed
    qed
  qed
qed

lemma canonical_run_looks_up_once:
  assumes can: "canonical Imp root"
    and run: "processPackage n fl cf Imp root name init_state = (r, st)"
  shows "\<forall>k\<in>dom (pkgs st). count_list (lookups st) k = 1"
proof -
  have "looked_up_once fl cf Imp root init_state"
    by (simp add: looked_up_once_def init_state_def)
  moreover have "name \<notin> dom (pkgs init_state)" by (simp add: init_state_def)
  ultimately have "looked_up_once fl cf Imp root st"
    using run by (rule processPackage_looked_up_once [OF can])
  then show ?thesis by (simp add: looked_up_once_def)
qed

text \<open>
  Claim C2. A path whose descriptor is in the store is not resolved again: the store
  stays as it is and the provider is not called for the path a second time. The code
  attempts this with the test of line 133 and misses it where the provider returns a
  descriptor under another import path than the one asked for: line 125 files the
  descriptor under its own import path, line 133 looks the import string up. In the run
  below the descriptor of \<^verbatim>\<open>x\<close> is stored under \<^verbatim>\<open>app/vendor/x\<close> at the first import; at
  the import of \<^verbatim>\<open>x\<close> by \<^verbatim>\<open>app/sub\<close> the test finds no key \<^verbatim>\<open>x\<close> and the provider is
  called for \<^verbatim>\<open>x\<close> again, as it is at every later import of \<^verbatim>\<open>x\<close>.
\<close>

theorem vendored_import_looked_up_twice:
  "vendoring (buildTags (configure default_flags)) ''x'' ''/src''
     = Inr (descriptor ''app/vendor/x'' False [])
   \<and> processPackage (Suc (Suc (Suc 0))) default_flags (configure default_flags)
        (vendoring (buildTags (configure default_flags))) ''/src'' ''app'' init_state
      = (Ok, resolved_vendoring)
   \<and> pkgs resolved_vendoring ''app/vendor/x'' = Some (descriptor ''app/vendor/x'' False [])
   \<and> count_list (lookups resolved_vendoring) ''x'' = 2
   \<and> rangeImports (processPackage (Suc 0) default_flags (configure default_flags)
          (vendoring (buildTags (configure default_flags))) ''/src'') [''x''] resolved_vendoring
      = (Ok, resolved_vendoring\<lparr>lookups := lookups resolved_vendoring @ [''x'']\<rparr>)"
  by (simp add: getImports_def allImports_def default_flags_def vendoring_def
     configure_def init_settings_def init_state_def descriptor_def isIgnored_def
     resolved_vendoring_def fun_eq_iff)

end
